theory Spec2Isabelle
  imports Complex_Main "HOL-Library.Word"
begin

section \<open>Submap: resampling a parent map (modules/submap.js)\<close>

text \<open>
  JavaScript numbers are modelled as \<open>real\<close>, cell ids and entity indices as \<open>nat\<close>.
  A \<open>Uint8Array\<close> is a list of 8-bit words and a \<open>Uint16Array\<close> a list of 16-bit
  words; a store into one is written with its conversion, and a store outside the
  array is ignored, as JavaScript does. A read outside an array gives \<open>undefined\<close> in JavaScript: every
  such read is guarded in the model by the branch the source takes on \<open>undefined\<close>.
  A \<open>TypeError\<close> thrown by the source (a property read or a spread of
  \<open>undefined\<close>) is the value \<open>Inl TypeError\<close>.
\<close>

text \<open>
  \<open>resample\<close> builds a new grid, samples the parent's fields into it, optionally
  smooths the heightmap and depresses river cells, has the new pack built by stages
  that are not part of this module, and then restores the overlays in a fixed order:
  cultures, burgs, states, religions, provinces, markers, zones. The functions of the
  module that post-process the heightmap and restore the entity collections are
  modelled below. \<open>restoreSecondaryCellData\<close> allocates \<open>pack.cells.burg\<close> as a new
  \<open>Uint16Array\<close>, all zero, and nothing writes it before \<open>restoreBurgs\<close>; the
  overlay arrays \<open>pack.cells.culture\<close>, \<open>state\<close>, \<open>religion\<close> and \<open>province\<close>
  that it fills are parameters of the restore functions.
\<close>

datatype error = TypeError

type_synonym point = "real \<times> real"

type_synonym uint8 = "8 word"

type_synonym uint16 = "16 word"

subsection \<open>Helpers\<close>

text \<open>The loop \<open>forEach\<close> over the indices of an array, stopping at the first throw.\<close>

fun forEach :: "(nat \<Rightarrow> 's \<Rightarrow> error + 's) \<Rightarrow> nat list \<Rightarrow> 's \<Rightarrow> error + 's" where
  "forEach f [] s = Inr s"
| "forEach f (k # ks) s = (case f k s of Inl e \<Rightarrow> Inl e | Inr s' \<Rightarrow> forEach f ks s')"

text \<open>\<open>Array.prototype.map\<close> with a callback that may throw.\<close>

fun mapE :: "('a \<Rightarrow> error + 'b) \<Rightarrow> 'a list \<Rightarrow> error + 'b list" where
  "mapE f [] = Inr []"
| "mapE f (a # as) =
     (case f a of Inl e \<Rightarrow> Inl e
      | Inr b \<Rightarrow> (case mapE f as of Inl e \<Rightarrow> Inl e | Inr bs \<Rightarrow> Inr (b # bs)))"

text \<open>Conversion of a number stored into a \<open>Uint8Array\<close> or a \<open>Uint16Array\<close>:
  the fraction is dropped, the rest wraps.\<close>

definition to_uint8 :: "real \<Rightarrow> uint8" where
  "to_uint8 v = word_of_int (if v < 0 then \<lceil>v\<rceil> else \<lfloor>v\<rfloor>)"

definition uint16_store :: "uint16 list \<Rightarrow> nat \<Rightarrow> nat \<Rightarrow> uint16 list" where
  "uint16_store a k v = (if k < length a then a[k := word_of_nat v] else a)"

definition newUint16Array :: "nat \<Rightarrow> uint16 list" where
  "newUint16Array n = replicate n 0"

text \<open>\<open>d3.mean\<close> of a non-empty array of numbers; \<open>undefined\<close> entries, which
  \<open>d3.mean\<close> skips, are left out by its caller below.\<close>

definition d3_mean :: "nat list \<Rightarrow> real" where
  "d3_mean vs = real (sum_list vs) / real (length vs)"

text \<open>Modelled from the spec: \<open>rn(v, d)\<close> is not under src/; it rounds \<open>v\<close> to \<open>d\<close>
  decimals (\<open>Math.round(v * 10^d) / 10^d\<close>, halves rounded up).\<close>

definition rn :: "real \<Rightarrow> nat \<Rightarrow> real" where
  "rn v d = real_of_int \<lfloor>v * 10 ^ d + 1 / 2\<rfloor> / 10 ^ d"



text \<open>\<open>isWater(graph, cellId)\<close>: \<open>graph.cells.h[cellId] < 20\<close>, false on \<open>undefined\<close>.\<close>

definition isWater :: "uint8 list \<Rightarrow> nat \<Rightarrow> bool" where
  "isWater hs cellId = (cellId < length hs \<and> hs ! cellId < 20)"

text \<open>\<open>isInMap(x, y)\<close>, with the globals \<open>graphWidth\<close> and \<open>graphHeight\<close> as parameters.\<close>

definition isInMap :: "real \<Rightarrow> real \<Rightarrow> real \<Rightarrow> real \<Rightarrow> bool" where
  "isInMap graphWidth graphHeight px py =
     (px \<ge> 0 \<and> px \<le> graphWidth \<and> py \<ge> 0 \<and> py \<le> graphHeight)"

subsection \<open>The grid and its heightmap filters\<close>

text \<open>
  The global \<open>grid\<close>. \<open>points\<close> is \<open>grid.points\<close>, the lattice that
  \<open>resamplePrimaryGridData\<close> iterates; \<open>cells_points\<close> is \<open>grid.cells.points\<close>, the
  property that \<open>depressRivers\<close> iterates, \<open>None\<close> when the grid has no such property.
\<close>

record grid =
  points :: "point list"
  cells_points :: "point list option"
  cells_c :: "nat list list"
  cells_h :: "uint8 list"

text \<open>One callback of \<open>smoothHeightmap\<close>, on the elevation array as it stands.\<close>

definition smooth_heights :: "nat list list \<Rightarrow> uint8 list \<Rightarrow> nat \<Rightarrow> nat list" where
  "smooth_heights cs hs k =
     unat (hs ! k) # map (\<lambda>j. unat (hs ! j)) (filter (\<lambda>j. j < length hs) (cs ! k))"

definition smooth_value :: "nat list list \<Rightarrow> uint8 list \<Rightarrow> nat \<Rightarrow> real" where
  "smooth_value cs hs k =
     (let meanHeight = d3_mean (smooth_heights cs hs k)
      in if isWater hs k then min meanHeight 19 else max meanHeight 20)"

definition smooth_cell :: "nat list list \<Rightarrow> nat \<Rightarrow> uint8 list \<Rightarrow> error + uint8 list" where
  "smooth_cell cs k hs =
     (if k < length cs then Inr (hs[k := to_uint8 (smooth_value cs hs k)])
      else Inl TypeError)"

definition smoothHeightmap :: "grid \<Rightarrow> error + grid" where
  "smoothHeightmap g =
     (case forEach (smooth_cell (cells_c g)) [0..<length (cells_h g)] (cells_h g) of
        Inl e \<Rightarrow> Inl e
      | Inr hs \<Rightarrow> Inr (g\<lparr>cells_h := hs\<rparr>))"

text \<open>
  \<open>depressRivers\<close>. \<open>inverse_fn\<close> is the option \<open>inverse\<close>; \<open>qfind px py\<close> is
  \<open>parentMap.pack.cells.q.find(px, py, Infinity)\<close>, \<open>None\<close> when the quadtree finds
  nothing, otherwise the cell id at position 2 of the found datum; \<open>cells_r\<close> is
  \<open>parentMap.pack.cells.r\<close>.
\<close>

definition depress_cell ::
  "(real \<Rightarrow> real \<Rightarrow> point) \<Rightarrow> (real \<Rightarrow> real \<Rightarrow> nat option) \<Rightarrow> nat list \<Rightarrow> point list
    \<Rightarrow> nat \<Rightarrow> uint8 list \<Rightarrow> error + uint8 list" where
  "depress_cell inverse_fn qfind cells_r pts newGridCell hs =
     (let (px, py) = pts ! newGridCell; (parentX, parentY) = inverse_fn px py
      in case qfind parentX parentY of
           None \<Rightarrow> Inl TypeError
         | Some parentPackCell \<Rightarrow>
             (let hasRiver = (parentPackCell < length cells_r \<and> cells_r ! parentPackCell \<noteq> 0)
              in if hasRiver \<and> newGridCell < length hs \<and> hs ! newGridCell > 20
                 then Inr (hs[newGridCell := hs ! newGridCell - 1]) else Inr hs))"

definition depressRivers ::
  "(real \<Rightarrow> real \<Rightarrow> point) \<Rightarrow> (real \<Rightarrow> real \<Rightarrow> nat option) \<Rightarrow> nat list \<Rightarrow> grid \<Rightarrow> error + grid" where
  "depressRivers inverse_fn qfind cells_r g =
     (case cells_points g of
        None \<Rightarrow> Inl TypeError
      | Some pts \<Rightarrow>
          (case forEach (depress_cell inverse_fn qfind cells_r pts) [0..<length pts] (cells_h g) of
             Inl e \<Rightarrow> Inl e
           | Inr hs \<Rightarrow> Inr (g\<lparr>cells_h := hs\<rparr>)))"

subsection \<open>The ambient values of the overlay restorer\<close>

text \<open>
  What the restore functions read besides their own collection:
  the options \<open>projection\<close> and \<open>scale\<close>, the globals \<open>graphWidth\<close> and
  \<open>graphHeight\<close>, the parent's \<open>pack.cells.p\<close> and \<open>pack.cells.area\<close>, and three
  spatial queries on the new pack that are not under src/:
  \<^item> \<open>findCell px py\<close>, the id of the new cell nearest to a point;
  \<^item> \<open>findAll px py r\<close>, the ids of the new cells within radius \<open>r\<close> of a point
    (\<open>r = None\<close> stands for the radius \<open>NaN\<close>);
  \<^item> \<open>landFind px py\<close>, \<open>packLandCellsQuadtree.find(px, py, Infinity)?.[2]\<close>, the id
    stored with the nearest new land cell, \<open>None\<close> when the quadtree is empty.
\<close>

record ctx =
  projection :: "real \<Rightarrow> real \<Rightarrow> point"
  scale :: real
  graphWidth :: real
  graphHeight :: real
  parent_p :: "point list"
  parent_area :: "nat list"
  findCell :: "real \<Rightarrow> real \<Rightarrow> nat"
  findAll :: "real \<Rightarrow> real \<Rightarrow> real option \<Rightarrow> nat list"
  landFind :: "real \<Rightarrow> real \<Rightarrow> nat option"

definition inMap :: "ctx \<Rightarrow> real \<Rightarrow> real \<Rightarrow> bool" where
  "inMap e px py = isInMap (graphWidth e) (graphHeight e) px py"

text \<open>\<open>new Set(array).has(v)\<close> for a \<open>Uint16Array\<close>.\<close>

definition has :: "uint16 list \<Rightarrow> nat \<Rightarrow> bool" where
  "has a v = (v \<in> set (map unat a))"

subsection \<open>Entities\<close>

text \<open>
  The attributes every overlay entity has; those that the restorer neither reads nor
  writes are carried along by the object spread and are left out, except \<open>name\<close>.
\<close>

record entity =
  i :: nat
  name :: string
  removed :: bool
  lock :: bool

record region = entity +
  center :: nat

record burg = entity +
  cell :: nat
  x :: real
  y :: real
  population :: real

record regiment =
  cell :: nat
  bx :: real
  by' :: real
  x :: real
  y :: real

record state = entity +
  center :: nat
  capital :: nat
  pole :: "point option"
  neighbors :: "nat list"
  military :: "regiment list"

record province = entity +
  center :: nat
  burg :: nat
  pole :: "point option"

record marker =
  i :: nat
  x :: real
  y :: real
  cell :: nat

record zone =
  i :: nat
  cells :: "nat list"

subsection \<open>Cultures and religions\<close>

text \<open>
  The callback of \<open>restoreCultures\<close> and of \<open>restoreReligions\<close> (the two bodies are
  the same up to the overlay array and the poles): \<open>overlay\<close> is \<open>pack.cells.culture\<close>
  or \<open>pack.cells.religion\<close>, \<open>poles\<close> the result of \<open>getPolesOfInaccessibility\<close>.
\<close>

definition restoreCentered ::
  "ctx \<Rightarrow> uint16 list \<Rightarrow> (nat \<Rightarrow> point option) \<Rightarrow> region \<Rightarrow> error + region" where
  "restoreCentered e overlay poles r =
     (if entity.i r = 0 \<or> removed r then Inr r
      else if \<not> has overlay (entity.i r) then Inr (r\<lparr>removed := True, lock := False\<rparr>)
      else if \<not> region.center r < length (parent_p e) then Inl TypeError
      else
        (let (xp, yp) = projection e (fst (parent_p e ! region.center r))
                                     (snd (parent_p e ! region.center r));
             px = rn xp 2; py = rn yp 2
         in if inMap e px py then Inr (r\<lparr>region.center := findCell e px py\<rparr>)
            else (case poles (entity.i r) of
                    None \<Rightarrow> Inl TypeError
                  | Some (qx, qy) \<Rightarrow> Inr (r\<lparr>region.center := findCell e qx qy\<rparr>))))"

definition restoreCultures ::
  "ctx \<Rightarrow> uint16 list \<Rightarrow> (nat \<Rightarrow> point option) \<Rightarrow> region list \<Rightarrow> error + region list" where
  "restoreCultures e cells_culture culturePoles cultures =
     mapE (restoreCentered e cells_culture culturePoles) cultures"

definition restoreReligions ::
  "ctx \<Rightarrow> uint16 list \<Rightarrow> (nat \<Rightarrow> point option) \<Rightarrow> region list \<Rightarrow> error + region list" where
  "restoreReligions e cells_religion religionPoles religions =
     mapE (restoreCentered e cells_religion religionPoles) religions"

subsection \<open>Burgs\<close>

text \<open>
  One callback of \<open>restoreBurgs\<close> on a parent burg \<open>b\<close> and the array
  \<open>pack.cells.burg\<close>. The callback writes \<open>burg.population\<close> on the parent's object
  before it copies it, so the result has three parts: the parent's burg after the
  call, the burg put into \<open>pack.burgs\<close>, and \<open>pack.cells.burg\<close>.
\<close>

definition restoreBurg :: "ctx \<Rightarrow> burg \<Rightarrow> uint16 list \<Rightarrow> burg \<times> burg \<times> uint16 list" where
  "restoreBurg e b cells_burg =
     (if entity.i b = 0 \<or> removed b then (b, b, cells_burg)
      else
        (let b1 = b\<lparr>population := population b * scale e\<rparr>;
             (xp, yp) = projection e (burg.x b1) (burg.y b1);
             px = rn xp 2; py = rn yp 2
         in if \<not> inMap e px py then (b1, b1\<lparr>removed := True, lock := False\<rparr>, cells_burg)
            else (case landFind e px py of
                    None \<Rightarrow> (b1, b1\<lparr>removed := True, lock := False\<rparr>, cells_burg)
                  | Some c \<Rightarrow>
                      if c = 0 then (b1, b1\<lparr>removed := True, lock := False\<rparr>, cells_burg)
                      else if c < length cells_burg \<and> cells_burg ! c \<noteq> 0
                      then (b1, b1\<lparr>removed := True, lock := False\<rparr>, cells_burg)
                      else (b1, b1\<lparr>burg.x := px, burg.y := py, burg.cell := c\<rparr>,
                            uint16_store cells_burg c (entity.i b)))))"

text \<open>\<open>restoreBurgs\<close>: the callbacks run in the order of \<open>parentMap.pack.burgs\<close>.
  The result is the parent's burgs after the call, \<open>pack.burgs\<close> and
  \<open>pack.cells.burg\<close>.\<close>

fun restoreBurgs :: "ctx \<Rightarrow> burg list \<Rightarrow> uint16 list \<Rightarrow> burg list \<times> burg list \<times> uint16 list" where
  "restoreBurgs e [] cells_burg = ([], [], cells_burg)"
| "restoreBurgs e (b # bs) cells_burg =
     (let (pb, nb, cb1) = restoreBurg e b cells_burg;
          (pbs, nbs, cb2) = restoreBurgs e bs cb1
      in (pb # pbs, nb # nbs, cb2))"

subsection \<open>States\<close>

text \<open>The callback on a regiment of a surviving state.\<close>

definition restoreRegiment :: "ctx \<Rightarrow> regiment \<Rightarrow> error + regiment" where
  "restoreRegiment e r =
     (if \<not> regiment.cell r < length (parent_p e) then Inl TypeError
      else
        (let (cx, cy) = projection e (fst (parent_p e ! regiment.cell r))
                                     (snd (parent_p e ! regiment.cell r));
             (xBase, yBase) = projection e (bx r) (by' r);
             (xCurrent, yCurrent) = projection e (regiment.x r) (regiment.y r)
         in Inr (r\<lparr>regiment.cell := findCell e cx cy, bx := rn xBase 2, by' := rn yBase 2,
                    regiment.x := rn xCurrent 2, regiment.y := rn yCurrent 2\<rparr>)))"

text \<open>The callback of the \<open>map\<close> in \<open>restoreStates\<close>; \<open>cells_state\<close> is
  \<open>pack.cells.state\<close>.\<close>

definition restoreState :: "ctx \<Rightarrow> uint16 list \<Rightarrow> state \<Rightarrow> error + state" where
  "restoreState e cells_state s =
     (if entity.i s = 0 \<or> removed s then Inr s
      else if \<not> has cells_state (entity.i s) then Inr (s\<lparr>removed := True, lock := False\<rparr>)
      else (case mapE (restoreRegiment e) (military s) of
              Inl err \<Rightarrow> Inl err
            | Inr rs \<Rightarrow>
                Inr (s\<lparr>neighbors := filter (\<lambda>stateId. has cells_state stateId) (neighbors s),
                       military := rs\<rparr>)))"

text \<open>Modelled from the spec: \<open>BurgsAndStates.getPoles\<close> is not under src/; it stores
  on each state the pole of inaccessibility of its region, taken from the mapping
  \<open>poles\<close> from group id to coordinate.\<close>

definition getPoles :: "(nat \<Rightarrow> point option) \<Rightarrow> state list \<Rightarrow> state list" where
  "getPoles poles ss = map (\<lambda>s. s\<lparr>state.pole := poles (entity.i s)\<rparr>) ss"

text \<open>The callback of the final \<open>forEach\<close> of \<open>restoreStates\<close>; \<open>burgs\<close> is
  \<open>pack.burgs\<close>. \<open>capital.cell\<close> throws when \<open>pack.burgs[state.capital]\<close> is
  \<open>undefined\<close>, and so does the spread of an \<open>undefined\<close> pole.\<close>

definition recenterState :: "ctx \<Rightarrow> burg list \<Rightarrow> state \<Rightarrow> error + state" where
  "recenterState e burgs s =
     (if entity.i s = 0 \<or> removed s then Inr s
      else if \<not> capital s < length burgs then Inl TypeError
      else if \<not> removed (burgs ! capital s)
      then Inr (s\<lparr>state.center := burg.cell (burgs ! capital s)\<rparr>)
      else (case state.pole s of
              None \<Rightarrow> Inl TypeError
            | Some (qx, qy) \<Rightarrow> Inr (s\<lparr>state.center := findCell e qx qy\<rparr>)))"

definition restoreStates ::
  "ctx \<Rightarrow> uint16 list \<Rightarrow> (nat \<Rightarrow> point option) \<Rightarrow> burg list \<Rightarrow> state list
    \<Rightarrow> error + state list" where
  "restoreStates e cells_state poles burgs states =
     (case mapE (restoreState e cells_state) states of
        Inl err \<Rightarrow> Inl err
      | Inr ss \<Rightarrow> mapE (recenterState e burgs) (getPoles poles ss))"

subsection \<open>Provinces\<close>

text \<open>The \<open>map\<close> of \<open>restoreProvinces\<close> returns a surviving province as the parent's
  own object, so the later writes of its pole and center land on that object too;
  the model returns the new collection only.\<close>

definition restoreProvince :: "uint16 list \<Rightarrow> province \<Rightarrow> province" where
  "restoreProvince cells_province p =
     (if entity.i p = 0 \<or> removed p then p
      else if \<not> has cells_province (entity.i p) then p\<lparr>removed := True, lock := False\<rparr>
      else p)"

text \<open>Modelled from the spec: \<open>Provinces.getPoles\<close> is not under src/; as for states.\<close>

definition getProvincePoles :: "(nat \<Rightarrow> point option) \<Rightarrow> province list \<Rightarrow> province list" where
  "getProvincePoles poles ps = map (\<lambda>p. p\<lparr>province.pole := poles (entity.i p)\<rparr>) ps"

definition recenterProvince :: "ctx \<Rightarrow> burg list \<Rightarrow> province \<Rightarrow> error + province" where
  "recenterProvince e burgs p =
     (if entity.i p = 0 \<or> removed p then Inr p
      else if \<not> province.burg p < length burgs then Inl TypeError
      else if \<not> removed (burgs ! province.burg p)
      then Inr (p\<lparr>province.center := burg.cell (burgs ! province.burg p)\<rparr>)
      else (case province.pole p of
              None \<Rightarrow> Inl TypeError
            | Some (qx, qy) \<Rightarrow> Inr (p\<lparr>province.center := findCell e qx qy\<rparr>)))"

definition restoreProvinces ::
  "ctx \<Rightarrow> uint16 list \<Rightarrow> (nat \<Rightarrow> point option) \<Rightarrow> burg list \<Rightarrow> province list
    \<Rightarrow> error + province list" where
  "restoreProvinces e cells_province poles burgs provinces =
     mapE (recenterProvince e burgs)
       (getProvincePoles poles (map (restoreProvince cells_province) provinces))"

subsection \<open>Markers\<close>

text \<open>
  \<open>restoreMarkers\<close> makes \<open>pack.markers\<close> the parent's own array and writes on its
  objects, so the objects live in a store: \<open>objs\<close> holds the marker objects of
  \<open>parentMap.pack.markers\<close>, addressed by their position there, and \<open>pack_markers\<close>
  holds the addresses of the objects that \<open>pack.markers\<close> contains.
\<close>

record marker_store =
  objs :: "marker list"
  pack_markers :: "nat list"

text \<open>Modelled from the spec: \<open>Markers.deleteMarker(id)\<close> is not under src/; it deletes
  the marker with that id outright from \<open>pack.markers\<close>.\<close>

definition deleteMarker :: "nat \<Rightarrow> marker_store \<Rightarrow> marker_store" where
  "deleteMarker markerId st =
     st\<lparr>pack_markers := filter (\<lambda>a. marker.i (objs st ! a) \<noteq> markerId) (pack_markers st)\<rparr>"

definition restoreMarker :: "ctx \<Rightarrow> nat \<Rightarrow> marker_store \<Rightarrow> marker_store" where
  "restoreMarker e a st =
     (let m = objs st ! a;
          (px, py) = projection e (marker.x m) (marker.y m);
          st1 = (if \<not> inMap e px py then deleteMarker (marker.i m) st else st);
          c = findCell e px py
      in st1\<lparr>objs := (objs st1)[a := (objs st1 ! a)\<lparr>marker.x := rn px 2, marker.y := rn py 2,
                                                    marker.cell := c\<rparr>]\<rparr>)"

definition restoreMarkers :: "ctx \<Rightarrow> marker list \<Rightarrow> marker_store" where
  "restoreMarkers e markers =
     fold (restoreMarker e) [0..<length markers]
       \<lparr>objs = markers, pack_markers = [0..<length markers]\<rparr>"

text \<open>The contents of \<open>pack.markers\<close> and of \<open>parentMap.pack.markers\<close> in a store.\<close>

definition new_markers :: "marker_store \<Rightarrow> marker list" where
  "new_markers st = map (\<lambda>a. objs st ! a) (pack_markers st)"

definition parent_markers :: "marker_store \<Rightarrow> marker list" where
  "parent_markers st = objs st"

subsection \<open>Zones\<close>





subsection \<open>Reference definitions and example inputs\<close>

text \<open>The elevation after smoothing as the specification words it: the mean of the
  cell's elevation and its neighbours' elevations in the field before smoothing,
  clamped to at most 19 for water and to at least 20 for land.\<close>

definition smooth_spec :: "grid \<Rightarrow> nat \<Rightarrow> real" where
  "smooth_spec g k =
     (let m = d3_mean (unat (cells_h g ! k) # map (\<lambda>j. unat (cells_h g ! j)) (cells_c g ! k))
      in if cells_h g ! k < 20 then min m 19 else max m 20)"

text \<open>Smoothing as a pointwise map over the elevation field before smoothing.\<close>

definition smooth_pointwise :: "grid \<Rightarrow> uint8 list" where
  "smooth_pointwise g =
     map (\<lambda>k. to_uint8 (smooth_value (cells_c g) (cells_h g) k)) [0..<length (cells_h g)]"

text \<open>Example grids: two water cells with a fractional mean; a land cell at 21 whose
  neighbours are water cells at 10; a land cell and a water cell.\<close>

definition grid_frac :: grid where
  "grid_frac = \<lparr>points = [(0, 0), (1, 0)], cells_points = None, cells_c = [[1], [0]],
                 cells_h = [10, 11]\<rparr>"

definition grid_D :: grid where
  "grid_D = \<lparr>points = [(0, 0), (1, 0), (0, 1)], cells_points = None,
              cells_c = [[1, 2], [0], [0]], cells_h = [21, 10, 10]\<rparr>"

definition grid_seq :: grid where
  "grid_seq = \<lparr>points = [(0, 0), (1, 0)], cells_points = None, cells_c = [[1], [0]],
                cells_h = [30, 10]\<rparr>"


text \<open>The forward-projected coordinate of a burg, rounded to 2 decimals; the parent's
  burg after the scaling of its population; the burg returned as removed.\<close>

definition burg_px :: "ctx \<Rightarrow> burg \<Rightarrow> real" where
  "burg_px e b = rn (fst (projection e (burg.x b) (burg.y b))) 2"

definition burg_py :: "ctx \<Rightarrow> burg \<Rightarrow> real" where
  "burg_py e b = rn (snd (projection e (burg.x b) (burg.y b))) 2"

definition scaled :: "ctx \<Rightarrow> burg \<Rightarrow> burg" where
  "scaled e b = b\<lparr>population := population b * scale e\<rparr>"

definition dropped :: "ctx \<Rightarrow> burg \<Rightarrow> burg" where
  "dropped e b = (scaled e b)\<lparr>removed := True, lock := False\<rparr>"

text \<open>The first two parts of the result of \<open>restoreBurgs\<close>.\<close>

definition parent_burgs :: "burg list \<times> burg list \<times> uint16 list \<Rightarrow> burg list" where
  "parent_burgs r = fst r"

definition new_burgs :: "burg list \<times> burg list \<times> uint16 list \<Rightarrow> burg list" where
  "new_burgs r = fst (snd r)"

text \<open>Example inputs: a 20 by 20 map whose points left of 5 snap to cell 1 and the
  others to cell 2, under the identity projection and under a shift by 15; the slot
  0 of the burgs and three burgs; a marker; a grid without \<open>cells.points\<close>.\<close>

definition ctx_snap :: ctx where
  "ctx_snap = \<lparr>projection = (\<lambda>px py. (px, py)), scale = 2, graphWidth = 20, graphHeight = 20,
                parent_p = [(0, 0), (10, 10), (1, 1)], parent_area = [4, 4, 4],
                findCell = (\<lambda>px py. if px < 5 then 1 else 2),
                findAll = (\<lambda>px py r. if px < 5 then [1, 0, 1] else [2, 1]),
                landFind = (\<lambda>px py. if px < 5 then Some 1 else Some 2)\<rparr>"

definition ctx_shift :: ctx where
  "ctx_shift = ctx_snap\<lparr>projection := (\<lambda>px py. (px + 15, py))\<rparr>"

definition burg_sentinel :: burg where
  "burg_sentinel = \<lparr>entity.i = 0, name = [], removed = False, lock = False,
                     burg.cell = 2, burg.x = 0, burg.y = 0, population = 0\<rparr>"

definition burg_a :: burg where
  "burg_a = \<lparr>entity.i = 1, name = ''A'', removed = False, lock = True,
              burg.cell = 1, burg.x = 10, burg.y = 10, population = 10\<rparr>"

definition burg_b :: burg where
  "burg_b = \<lparr>entity.i = 2, name = ''B'', removed = False, lock = True,
              burg.cell = 1, burg.x = 11, burg.y = 11, population = 5\<rparr>"

definition burg_c :: burg where
  "burg_c = \<lparr>entity.i = 3, name = ''C'', removed = False, lock = False,
              burg.cell = 2, burg.x = 1, burg.y = 1, population = 7\<rparr>"

definition marker_m :: marker where
  "marker_m = \<lparr>marker.i = 7, x = 10, y = 10, cell = 1\<rparr>"

definition grid_river :: grid where
  "grid_river = \<lparr>points = [(0, 0)], cells_points = None, cells_c = [[]], cells_h = [30]\<rparr>"

text \<open>An index is present when at least one new cell's overlay field equals it.\<close>

definition on_some_cell :: "uint16 list \<Rightarrow> nat \<Rightarrow> bool" where
  "on_some_cell overlay v = (\<exists>c<length overlay. unat (overlay ! c) = v)"

text \<open>
  The presence property of a migrated collection: the index and the name of each
  entity are kept; each entity of index other than 0 returned not removed has its
  index on some new cell; each parent entity of index other than 0 that was not
  removed and whose index is on no new cell is returned removed, with its lock
  cleared; the entity of index 0 and every entity that was removed already keep
  their removed and lock flags.
\<close>

definition entity_presence ::
  "uint16 list \<Rightarrow> 'a entity_scheme list \<Rightarrow> 'a entity_scheme list \<Rightarrow> bool" where
  "entity_presence overlay parents news =
     (length news = length parents \<and>
      (\<forall>j<length parents.
         entity.i (news ! j) = entity.i (parents ! j) \<and>
         name (news ! j) = name (parents ! j) \<and>
         (entity.i (news ! j) \<noteq> 0 \<and> \<not> removed (news ! j)
            \<longrightarrow> on_some_cell overlay (entity.i (news ! j))) \<and>
         (entity.i (parents ! j) \<noteq> 0 \<and> \<not> removed (parents ! j)
            \<and> \<not> on_some_cell overlay (entity.i (parents ! j))
            \<longrightarrow> removed (news ! j) \<and> \<not> lock (news ! j)) \<and>
         (entity.i (parents ! j) = 0 \<or> removed (parents ! j)
            \<longrightarrow> removed (news ! j) = removed (parents ! j)
                \<and> lock (news ! j) = lock (parents ! j))))"

text \<open>The same for one entity and the entity returned for it.\<close>

definition entity_kept ::
  "uint16 list \<Rightarrow> 'a entity_scheme \<Rightarrow> 'b entity_scheme \<Rightarrow> bool" where
  "entity_kept overlay r r' =
     (entity.i r' = entity.i r \<and> name r' = name r \<and>
      (entity.i r' \<noteq> 0 \<and> \<not> removed r' \<longrightarrow> on_some_cell overlay (entity.i r')) \<and>
      (entity.i r \<noteq> 0 \<and> \<not> removed r \<and> \<not> on_some_cell overlay (entity.i r)
         \<longrightarrow> removed r' \<and> \<not> lock r') \<and>
      (entity.i r = 0 \<or> removed r \<longrightarrow> removed r' = removed r \<and> lock r' = lock r))"

text \<open>Example cultures, states and provinces, the burgs of a new pack, and poles.\<close>

definition culture_wild :: region where
  "culture_wild = \<lparr>entity.i = 0, name = ''Wildlands'', removed = False, lock = False,
                    region.center = 0\<rparr>"

definition culture_one :: region where
  "culture_one = \<lparr>entity.i = 1, name = ''One'', removed = False, lock = True, region.center = 1\<rparr>"

definition culture_two :: region where
  "culture_two = \<lparr>entity.i = 2, name = ''Two'', removed = False, lock = True, region.center = 2\<rparr>"

definition state_one :: state where
  "state_one = \<lparr>entity.i = 1, name = ''One'', removed = False, lock = True, state.center = 0,
                 capital = 1, state.pole = None, neighbors = [2, 3], military = []\<rparr>"

definition state_two :: state where
  "state_two = \<lparr>entity.i = 2, name = ''Two'', removed = False, lock = True, state.center = 0,
                 capital = 2, state.pole = None, neighbors = [1], military = []\<rparr>"

definition state_three :: state where
  "state_three = \<lparr>entity.i = 3, name = ''Three'', removed = False, lock = False, state.center = 0,
                 capital = 2, state.pole = None, neighbors = [1],
                 military = [\<lparr>regiment.cell = 2, bx = 1, by' = 1, regiment.x = 2, regiment.y = 1\<rparr>]\<rparr>"

definition province_one :: province where
  "province_one = \<lparr>entity.i = 1, name = ''One'', removed = False, lock = True,
                    province.center = 0, province.burg = 1, province.pole = None\<rparr>"

definition province_two :: province where
  "province_two = \<lparr>entity.i = 2, name = ''Two'', removed = False, lock = True,
                    province.center = 0, province.burg = 2, province.pole = None\<rparr>"

definition pack_burgs :: "burg list" where
  "pack_burgs = [burg_sentinel, burg_a\<lparr>burg.cell := 2\<rparr>, burg_b\<lparr>removed := True, lock := False\<rparr>]"

definition poles_ex :: "nat \<Rightarrow> point option" where
  "poles_ex k = (if k = 3 then Some (1, 1) else None)"







section \<open>Properties\<close>

subsection \<open>Smoothing\<close>

lemma forEach_append:
  "forEach f (ks @ ls) s = (case forEach f ks s of Inl e \<Rightarrow> Inl e | Inr s' \<Rightarrow> forEach f ls s')"
  by (induction ks arbitrary: s) (auto split: sum.splits)

lemma smooth_cell_length: "smooth_cell cs k hs = Inr hs' \<Longrightarrow> length hs' = length hs"
  by (auto simp: smooth_cell_def split: if_splits)

lemma smooth_cell_other: "smooth_cell cs k hs = Inr hs' \<Longrightarrow> j \<noteq> k \<Longrightarrow> hs' ! j = hs ! j"
  by (auto simp: smooth_cell_def split: if_splits)

lemma forEach_smooth_length:
  "forEach (smooth_cell cs) ks hs = Inr hs' \<Longrightarrow> length hs' = length hs"
proof (induction ks arbitrary: hs)
  case Nil
  then show ?case by simp
next
  case (Cons k ks)
  then obtain h1 where s: "smooth_cell cs k hs = Inr h1" and r: "forEach (smooth_cell cs) ks h1 = Inr hs'"
    by (auto split: sum.splits)
  from Cons.IH [OF r] smooth_cell_length [OF s] show ?case by simp
qed

lemma forEach_smooth_other:
  "forEach (smooth_cell cs) ks hs = Inr hs' \<Longrightarrow> j \<notin> set ks \<Longrightarrow> hs' ! j = hs ! j"
proof (induction ks arbitrary: hs)
  case Nil
  then show ?case by simp
next
  case (Cons k ks)
  then obtain h1 where s: "smooth_cell cs k hs = Inr h1" and r: "forEach (smooth_cell cs) ks h1 = Inr hs'"
    by (auto split: sum.splits)
  from Cons.prems have "j \<noteq> k" "j \<notin> set ks" by auto
  with Cons.IH [OF r] smooth_cell_other [OF s] show ?case by simp
qed

lemma smooth_split:
  assumes run: "forEach (smooth_cell cs) [0..<length hs] hs = Inr hs'" and k: "k < length hs"
  shows "\<exists>hk. forEach (smooth_cell cs) [0..<k] hs = Inr hk \<and> length hk = length hs
           \<and> hs' ! k = to_uint8 (smooth_value cs hk k)
           \<and> (\<forall>j\<ge>k. hk ! j = hs ! j) \<and> (\<forall>j<k. hk ! j = hs' ! j)"
proof -
  have upt: "[0..<length hs] = [0..<k] @ k # [Suc k..<length hs]"
    using k by (metis le0 upt_add_eq_append upt_conv_Cons le_add_diff_inverse less_imp_le_nat)
  from run obtain hk where a: "forEach (smooth_cell cs) [0..<k] hs = Inr hk"
    and b: "forEach (smooth_cell cs) (k # [Suc k..<length hs]) hk = Inr hs'"
    unfolding upt forEach_append by (auto split: sum.splits)
  from b obtain h1 where c: "smooth_cell cs k hk = Inr h1"
    and d: "forEach (smooth_cell cs) [Suc k..<length hs] h1 = Inr hs'"
    by (auto split: sum.splits)
  have len: "length hk = length hs" using forEach_smooth_length [OF a] .
  have h1: "h1 = hk[k := to_uint8 (smooth_value cs hk k)]"
    using c by (auto simp: smooth_cell_def split: if_splits)
  have "hs' ! k = h1 ! k" using forEach_smooth_other [OF d, of k] by simp
  then have v: "hs' ! k = to_uint8 (smooth_value cs hk k)" using h1 len k by simp
  have ge: "\<forall>j\<ge>k. hk ! j = hs ! j" using forEach_smooth_other [OF a] by simp
  have lt: "\<forall>j<k. hk ! j = hs' ! j"
  proof (intro allI impI)
    fix j assume "j < k"
    then have "hs' ! j = h1 ! j" using forEach_smooth_other [OF d, of j] by simp
    also have "\<dots> = hk ! j" using \<open>j < k\<close> h1 by simp
    finally show "hk ! j = hs' ! j" by simp
  qed
  from a len v ge lt show ?thesis by blast
qed

lemma d3_mean_bounds: "0 \<le> d3_mean vs"
  by (simp add: d3_mean_def)

lemma d3_mean_le: "vs \<noteq> [] \<Longrightarrow> \<forall>v\<in>set vs. v \<le> 255 \<Longrightarrow> d3_mean vs \<le> 255"
proof -
  assume ne: "vs \<noteq> []" and b: "\<forall>v\<in>set vs. v \<le> 255"
  have "sum_list vs \<le> 255 * length vs"
    using b by (induction vs) auto
  then have "real (sum_list vs) \<le> 255 * real (length vs)"
    by (metis of_nat_le_iff of_nat_mult of_nat_numeral)
  moreover have "0 < real (length vs)" using ne by simp
  ultimately show ?thesis by (simp add: d3_mean_def pos_divide_le_eq)
qed

lemma smooth_heights_le: "\<forall>v\<in>set (smooth_heights cs hs k). v \<le> 255"
proof -
  have "unat w \<le> 255" for w :: uint8
    using unsigned_less [of w, where 'a = nat] by simp
  then show ?thesis by (auto simp: smooth_heights_def)
qed

lemma to_uint8_water: "0 \<le> m \<Longrightarrow> to_uint8 (min m 19) < 20"
proof -
  assume m: "0 \<le> m"
  let ?v = "min m 19"
  have "0 \<le> \<lfloor>?v\<rfloor>" "\<lfloor>?v\<rfloor> \<le> 19" using m by (auto simp: floor_le_iff min_def)
  then have "uint (word_of_int \<lfloor>?v\<rfloor> :: uint8) = \<lfloor>?v\<rfloor>"
    by (simp add: uint_word_of_int take_bit_int_eq_self)
  moreover have "\<not> ?v < 0" using m by simp
  ultimately have "uint (to_uint8 ?v) < 20" using \<open>\<lfloor>?v\<rfloor> \<le> 19\<close> by (simp only: to_uint8_def if_False)
  then show ?thesis by (simp add: word_less_def)
qed

lemma to_uint8_land: "m \<le> 255 \<Longrightarrow> \<not> to_uint8 (max m 20) < 20"
proof -
  assume m: "m \<le> 255"
  let ?v = "max m 20"
  have "20 \<le> \<lfloor>?v\<rfloor>" "\<lfloor>?v\<rfloor> \<le> 255" using m by (auto simp: le_floor_iff floor_le_iff max_def)
  then have "uint (word_of_int \<lfloor>?v\<rfloor> :: uint8) = \<lfloor>?v\<rfloor>"
    by (simp add: uint_word_of_int take_bit_int_eq_self)
  moreover have "\<not> ?v < 0" by simp
  ultimately have "20 \<le> uint (to_uint8 ?v)" using \<open>20 \<le> \<lfloor>?v\<rfloor>\<close> by (simp only: to_uint8_def if_False)
  then show ?thesis by (simp add: word_less_def)
qed

lemma smooth_value_class:
  "k < length hs \<Longrightarrow> (to_uint8 (smooth_value cs hs k) < 20) = (hs ! k < 20)"
  using to_uint8_water [OF d3_mean_bounds, of "smooth_heights cs hs k"]
        to_uint8_land [OF d3_mean_le [OF _ smooth_heights_le], of cs hs k]
  by (auto simp: smooth_value_def isWater_def Let_def smooth_heights_def)

lemmas smooth_eval = smoothHeightmap_def smooth_cell_def smooth_value_def smooth_heights_def
      d3_mean_def isWater_def to_uint8_def upt_rec

lemma forEach_smooth_fold:
  "\<forall>k\<in>set ks. k < length cs \<Longrightarrow>
   forEach (smooth_cell cs) ks hs = Inr (fold (\<lambda>k a. a[k := to_uint8 (smooth_value cs a k)]) ks hs)"
  by (induction ks arbitrary: hs) (simp_all add: smooth_cell_def)

lemma smoothHeightmap_total:
  assumes "length (cells_h g) \<le> length (cells_c g)"
  shows "smoothHeightmap g = Inr (g\<lparr>cells_h :=
           fold (\<lambda>k a. a[k := to_uint8 (smooth_value (cells_c g) a k)]) [0..<length (cells_h g)] (cells_h g)\<rparr>)"
proof -
  have "\<forall>k\<in>set [0..<length (cells_h g)]. k < length (cells_c g)" using assms by auto
  from forEach_smooth_fold [OF this] show ?thesis by (simp add: smoothHeightmap_def)
qed

lemma smoothHeightmap_run:
  "smoothHeightmap g = Inr g' \<Longrightarrow>
   forEach (smooth_cell (cells_c g)) [0..<length (cells_h g)] (cells_h g) = Inr (cells_h g')"
  by (auto simp: smoothHeightmap_def split: sum.splits)

text \<open>
  C5, as stated, fails: on two neighbouring water cells at 10 and 11 the clamped mean
  of the first is 10.5, and the \<open>Uint8Array\<close> keeps 10.
\<close>

theorem smoothHeightmap_counterexample:
  "smoothHeightmap grid_frac = Inr (grid_frac\<lparr>cells_h := [10, 10]\<rparr>)
   \<and> real (unat (cells_h (grid_frac\<lparr>cells_h := [10, 10]\<rparr>) ! 0)) \<noteq> smooth_spec grid_frac 0"
  by (simp add: grid_frac_def smooth_spec_def smooth_eval)

text \<open>
  C5, amended: with smoothing enabled and a neighbour list for every grid cell, the
  elevation of each cell after smoothing is the integer part, as a \<open>Uint8Array\<close>
  stores it, of the mean of the cell's elevation and its neighbours' elevations as
  they stand when the cell is visited (the cells before it already smoothed), clamped
  to at most 19 if the cell was water and to at least 20 if it was land; smoothing
  never changes a cell's land/water classification.
\<close>

theorem smoothHeightmap_clamped_mean:
  assumes wf: "length (cells_h g) \<le> length (cells_c g)"
  shows "\<exists>g'. smoothHeightmap g = Inr g' \<and> length (cells_h g') = length (cells_h g) \<and>
     (\<forall>k<length (cells_h g). \<exists>hk.
        forEach (smooth_cell (cells_c g)) [0..<k] (cells_h g) = Inr hk \<and>
        hk ! k = cells_h g ! k \<and>
        cells_h g' ! k =
          to_uint8 (if cells_h g ! k < 20
                    then min (d3_mean (smooth_heights (cells_c g) hk k)) 19
                    else max (d3_mean (smooth_heights (cells_c g) hk k)) 20) \<and>
        (cells_h g' ! k < 20) = (cells_h g ! k < 20))"
proof -
  from smoothHeightmap_total [OF wf] obtain g' where g': "smoothHeightmap g = Inr g'" by blast
  note run = smoothHeightmap_run [OF g']
  have len: "length (cells_h g') = length (cells_h g)" using forEach_smooth_length [OF run] .
  have "\<exists>hk. forEach (smooth_cell (cells_c g)) [0..<k] (cells_h g) = Inr hk \<and>
        hk ! k = cells_h g ! k \<and>
        cells_h g' ! k =
          to_uint8 (if cells_h g ! k < 20
                    then min (d3_mean (smooth_heights (cells_c g) hk k)) 19
                    else max (d3_mean (smooth_heights (cells_c g) hk k)) 20) \<and>
        (cells_h g' ! k < 20) = (cells_h g ! k < 20)" if k: "k < length (cells_h g)" for k
  proof -
    from smooth_split [OF run k] obtain hk where
      a: "forEach (smooth_cell (cells_c g)) [0..<k] (cells_h g) = Inr hk" and
      l: "length hk = length (cells_h g)" and
      v: "cells_h g' ! k = to_uint8 (smooth_value (cells_c g) hk k)" and
      ge: "\<forall>j\<ge>k. hk ! j = cells_h g ! j" by blast
    have same: "hk ! k = cells_h g ! k" using ge by simp
    have kl: "k < length hk" using k l by simp
    have val: "smooth_value (cells_c g) hk k =
         (if cells_h g ! k < 20
          then min (d3_mean (smooth_heights (cells_c g) hk k)) 19
          else max (d3_mean (smooth_heights (cells_c g) hk k)) 20)"
      using kl same by (simp add: smooth_value_def isWater_def)
    have cls: "(cells_h g' ! k < 20) = (cells_h g ! k < 20)"
      using smooth_value_class [OF kl, of "cells_c g"] v same by simp
    have v': "cells_h g' ! k =
          to_uint8 (if cells_h g ! k < 20
                    then min (d3_mean (smooth_heights (cells_c g) hk k)) 19
                    else max (d3_mean (smooth_heights (cells_c g) hk k)) 20)"
      using v val by simp
    show ?thesis by (rule exI [of _ hk]) (intro conjI a same v' cls)
  qed
  with g' len show ?thesis by blast
qed

theorem smoothHeightmap_clamped_mean_witness:
  "length (cells_h grid_D) \<le> length (cells_c grid_D)
   \<and> smoothHeightmap grid_D = Inr (grid_D\<lparr>cells_h := [20, 15, 15]\<rparr>)
   \<and> (\<exists>g'. smoothHeightmap grid_D = Inr g' \<and> (cells_h g' ! 0 < 20) = (cells_h grid_D ! 0 < 20))"
proof -
  have wf: "length (cells_h grid_D) \<le> length (cells_c grid_D)" by (simp add: grid_D_def)
  have ev: "smoothHeightmap grid_D = Inr (grid_D\<lparr>cells_h := [20, 15, 15]\<rparr>)"
    by (simp add: grid_D_def smooth_eval)
  have k: "0 < length (cells_h grid_D)" by (simp add: grid_D_def)
  from smoothHeightmap_clamped_mean [OF wf] k
  have "\<exists>g'. smoothHeightmap grid_D = Inr g' \<and> (cells_h g' ! 0 < 20) = (cells_h grid_D ! 0 < 20)"
    by blast
  with wf ev show ?thesis by blast
qed

text \<open>
  C10: \<open>smoothHeightmap\<close> updates the elevation array in place in increasing cell
  order: the mean for cell \<open>k\<close> reads the smoothed elevation of every neighbour
  below \<open>k\<close> and the original elevation of every neighbour above \<open>k\<close>, and the
  result is the left fold of the cell update over the cell indices. The witness
  shows a grid on which this differs from the pointwise map over the original field.
\<close>

theorem smoothHeightmap_sequential:
  assumes wf: "length (cells_h g) \<le> length (cells_c g)"
  shows "\<exists>g'. smoothHeightmap g = Inr g' \<and>
     cells_h g' = fold (\<lambda>k a. a[k := to_uint8 (smooth_value (cells_c g) a k)])
                    [0..<length (cells_h g)] (cells_h g) \<and>
     (\<forall>k<length (cells_h g).
        cells_h g' ! k =
          to_uint8 (let meanHeight = d3_mean (unat (cells_h g ! k) #
                         map (\<lambda>j. unat (if j < k then cells_h g' ! j else cells_h g ! j))
                           (filter (\<lambda>j. j < length (cells_h g)) (cells_c g ! k)))
                    in if cells_h g ! k < 20 then min meanHeight 19 else max meanHeight 20))"
proof -
  note tot = smoothHeightmap_total [OF wf]
  then obtain g' where g': "smoothHeightmap g = Inr g'" by blast
  have fold: "cells_h g' = fold (\<lambda>k a. a[k := to_uint8 (smooth_value (cells_c g) a k)])
                    [0..<length (cells_h g)] (cells_h g)"
    using tot g' by auto
  note run = smoothHeightmap_run [OF g']
  have "cells_h g' ! k =
          to_uint8 (let meanHeight = d3_mean (unat (cells_h g ! k) #
                         map (\<lambda>j. unat (if j < k then cells_h g' ! j else cells_h g ! j))
                           (filter (\<lambda>j. j < length (cells_h g)) (cells_c g ! k)))
                    in if cells_h g ! k < 20 then min meanHeight 19 else max meanHeight 20)"
    if k: "k < length (cells_h g)" for k
  proof -
    from smooth_split [OF run k] obtain hk where
      l: "length hk = length (cells_h g)" and
      v: "cells_h g' ! k = to_uint8 (smooth_value (cells_c g) hk k)" and
      ge: "\<forall>j\<ge>k. hk ! j = cells_h g ! j" and
      lt: "\<forall>j<k. hk ! j = cells_h g' ! j" by blast
    have each: "hk ! j = (if j < k then cells_h g' ! j else cells_h g ! j)" for j
      using ge lt by (cases "j < k") auto
    have hts: "smooth_heights (cells_c g) hk k = unat (cells_h g ! k) #
                 map (\<lambda>j. unat (if j < k then cells_h g' ! j else cells_h g ! j))
                   (filter (\<lambda>j. j < length (cells_h g)) (cells_c g ! k))"
      unfolding smooth_heights_def l by (simp add: each)
    have "isWater hk k = (cells_h g ! k < 20)" using k l ge by (simp add: isWater_def)
    then show ?thesis unfolding v smooth_value_def hts by simp
  qed
  with g' fold show ?thesis by blast
qed

theorem smoothHeightmap_sequential_witness:
  "length (cells_h grid_seq) \<le> length (cells_c grid_seq)
   \<and> (\<exists>g'. smoothHeightmap grid_seq = Inr g' \<and> cells_h g' = [20, 15]
            \<and> cells_h g' \<noteq> smooth_pointwise grid_seq)"
proof -
  have wf: "length (cells_h grid_seq) \<le> length (cells_c grid_seq)" by (simp add: grid_seq_def)
  from smoothHeightmap_sequential [OF wf] obtain g' where
    g': "smoothHeightmap grid_seq = Inr g'" and
    f: "cells_h g' = fold (\<lambda>k a. a[k := to_uint8 (smooth_value (cells_c grid_seq) a k)])
                    [0..<length (cells_h grid_seq)] (cells_h grid_seq)" by blast
  have v: "cells_h g' = [20, 15]" unfolding f by (simp add: grid_seq_def smooth_eval)
  have "smooth_pointwise grid_seq = [20, 19]"
    by (simp add: smooth_pointwise_def grid_seq_def smooth_eval)
  with wf g' v show ?thesis by auto
qed

subsection \<open>Burgs\<close>

lemma restoreBurg_skip:
  "entity.i b = 0 \<or> removed b \<Longrightarrow> restoreBurg e b cb0 = (b, b, cb0)"
  by (simp add: restoreBurg_def)

lemma restoreBurg_out:
  "entity.i b \<noteq> 0 \<Longrightarrow> \<not> removed b \<Longrightarrow> \<not> inMap e (burg_px e b) (burg_py e b) \<Longrightarrow>
   restoreBurg e b cb0 = (scaled e b, dropped e b, cb0)"
  by (simp add: restoreBurg_def burg_px_def burg_py_def scaled_def dropped_def Let_def case_prod_beta)

lemma restoreBurg_none:
  "entity.i b \<noteq> 0 \<Longrightarrow> \<not> removed b \<Longrightarrow> inMap e (burg_px e b) (burg_py e b) \<Longrightarrow>
   landFind e (burg_px e b) (burg_py e b) = None \<Longrightarrow>
   restoreBurg e b cb0 = (scaled e b, dropped e b, cb0)"
  by (simp add: restoreBurg_def burg_px_def burg_py_def scaled_def dropped_def Let_def case_prod_beta)

lemma restoreBurg_taken:
  "entity.i b \<noteq> 0 \<Longrightarrow> \<not> removed b \<Longrightarrow> inMap e (burg_px e b) (burg_py e b) \<Longrightarrow>
   landFind e (burg_px e b) (burg_py e b) = Some c \<Longrightarrow>
   c = 0 \<or> (c < length cb0 \<and> cb0 ! c \<noteq> 0) \<Longrightarrow>
   restoreBurg e b cb0 = (scaled e b, dropped e b, cb0)"
  by (auto simp add: restoreBurg_def burg_px_def burg_py_def scaled_def dropped_def Let_def case_prod_beta)

lemma restoreBurg_placed:
  "entity.i b \<noteq> 0 \<Longrightarrow> \<not> removed b \<Longrightarrow> inMap e (burg_px e b) (burg_py e b) \<Longrightarrow>
   landFind e (burg_px e b) (burg_py e b) = Some c \<Longrightarrow>
   c \<noteq> 0 \<Longrightarrow> \<not> (c < length cb0 \<and> cb0 ! c \<noteq> 0) \<Longrightarrow>
   restoreBurg e b cb0 =
     (scaled e b, (scaled e b)\<lparr>burg.x := burg_px e b, burg.y := burg_py e b, burg.cell := c\<rparr>,
      uint16_store cb0 c (entity.i b))"
  by (auto simp add: restoreBurg_def burg_px_def burg_py_def scaled_def Let_def case_prod_beta)

lemma restoreBurg_cases:
  assumes r: "restoreBurg e b cb0 = (pb, nb, cb)"
  obtains (skip) "entity.i b = 0 \<or> removed b" "nb = b" "pb = b" "cb = cb0"
  | (drop) "entity.i b \<noteq> 0" "\<not> removed b" "nb = dropped e b" "pb = scaled e b" "cb = cb0"
      "\<not> inMap e (burg_px e b) (burg_py e b) \<or> landFind e (burg_px e b) (burg_py e b) = None
       \<or> landFind e (burg_px e b) (burg_py e b) = Some 0
       \<or> (\<exists>c. landFind e (burg_px e b) (burg_py e b) = Some c \<and> c < length cb0 \<and> cb0 ! c \<noteq> 0)"
  | (place) c where "entity.i b \<noteq> 0" "\<not> removed b" "inMap e (burg_px e b) (burg_py e b)"
      "landFind e (burg_px e b) (burg_py e b) = Some c" "c \<noteq> 0"
      "\<not> (c < length cb0 \<and> cb0 ! c \<noteq> 0)"
      "nb = (scaled e b)\<lparr>burg.x := burg_px e b, burg.y := burg_py e b, burg.cell := c\<rparr>"
      "pb = scaled e b" "cb = uint16_store cb0 c (entity.i b)"
proof (cases "entity.i b = 0 \<or> removed b")
  case True
  from r restoreBurg_skip [OF True, of e cb0] have "nb = b" "pb = b" "cb = cb0" by auto
  with True show ?thesis by (rule skip)
next
  case False
  then have live: "entity.i b \<noteq> 0" "\<not> removed b" by simp_all
  show ?thesis
  proof (cases "inMap e (burg_px e b) (burg_py e b)")
    case False
    from r restoreBurg_out [OF live False, of cb0]
    have "nb = dropped e b" "pb = scaled e b" "cb = cb0" by auto
    with live show ?thesis using False by (rule drop [OF _ _ _ _ _ disjI1])
  next
    case inm: True
    show ?thesis
    proof (cases "landFind e (burg_px e b) (burg_py e b)")
      case None
      from r restoreBurg_none [OF live inm None, of cb0]
      have "nb = dropped e b" "pb = scaled e b" "cb = cb0" by auto
      with live show ?thesis using None by (rule drop [OF _ _ _ _ _ disjI2 [OF disjI1]])
    next
      case (Some c)
      show ?thesis
      proof (cases "c = 0 \<or> (c < length cb0 \<and> cb0 ! c \<noteq> 0)")
        case True
        from r restoreBurg_taken [OF live inm Some True]
        have eqs: "nb = dropped e b" "pb = scaled e b" "cb = cb0" by auto
        from True Some have "landFind e (burg_px e b) (burg_py e b) = Some 0
          \<or> (\<exists>c. landFind e (burg_px e b) (burg_py e b) = Some c \<and> c < length cb0 \<and> cb0 ! c \<noteq> 0)"
          by blast
        then have "\<not> inMap e (burg_px e b) (burg_py e b) \<or> landFind e (burg_px e b) (burg_py e b) = None
          \<or> landFind e (burg_px e b) (burg_py e b) = Some 0
          \<or> (\<exists>c. landFind e (burg_px e b) (burg_py e b) = Some c \<and> c < length cb0 \<and> cb0 ! c \<noteq> 0)"
          by blast
        with live eqs show ?thesis by (rule drop)
      next
        case False
        then have c: "c \<noteq> 0" "\<not> (c < length cb0 \<and> cb0 ! c \<noteq> 0)" by simp_all
        from r restoreBurg_placed [OF live inm Some c] have
          "nb = (scaled e b)\<lparr>burg.x := burg_px e b, burg.y := burg_py e b, burg.cell := c\<rparr>"
          "pb = scaled e b" "cb = uint16_store cb0 c (entity.i b)" by auto
        with live inm Some c show ?thesis by (rule place)
      qed
    qed
  qed
qed

lemma restoreBurgs_Cons:
  assumes "restoreBurgs e (b # bs) cb0 = (pbs, nbs, cb)"
  obtains pb nb cb1 pbs' nbs' where "restoreBurg e b cb0 = (pb, nb, cb1)"
    "restoreBurgs e bs cb1 = (pbs', nbs', cb)" "pbs = pb # pbs'" "nbs = nb # nbs'"
  using assms by (auto split: prod.splits)

lemma word16_of_index: "v < 65536 \<Longrightarrow> unat (word_of_nat v :: uint16) = v"
  by (simp add: unat_of_nat take_bit_nat_eq_self)

lemma word16_of_index_nonzero: "v \<noteq> 0 \<Longrightarrow> v < 65536 \<Longrightarrow> (word_of_nat v :: uint16) \<noteq> 0"
  using word16_of_index [of v] by auto

lemma restoreBurg_length:
  "restoreBurg e b cb0 = (pb, nb, cb) \<Longrightarrow> length cb = length cb0"
  by (erule restoreBurg_cases) (simp_all add: uint16_store_def)

lemma restoreBurg_keep:
  "restoreBurg e b cb0 = (pb, nb, cb) \<Longrightarrow> c < length cb0 \<Longrightarrow> cb0 ! c \<noteq> 0 \<Longrightarrow> cb ! c = cb0 ! c"
  by (erule restoreBurg_cases) (auto simp: uint16_store_def nth_list_update)

lemma restoreBurg_index:
  "restoreBurg e b cb0 = (pb, nb, cb) \<Longrightarrow> entity.i nb = entity.i b"
  by (erule restoreBurg_cases) (simp_all add: scaled_def dropped_def)

lemma restoreBurg_origin:
  "restoreBurg e b cb0 = (pb, nb, cb) \<Longrightarrow> c < length cb \<Longrightarrow>
   cb ! c = cb0 ! c \<or> (\<not> removed nb \<and> cb ! c = word_of_nat (entity.i b))"
  by (erule restoreBurg_cases) (auto simp: uint16_store_def nth_list_update scaled_def)

lemma restoreBurgs_length:
  "restoreBurgs e bs cb0 = (pbs, nbs, cb) \<Longrightarrow>
   length nbs = length bs \<and> length pbs = length bs \<and> length cb = length cb0"
proof (induction bs arbitrary: cb0 pbs nbs)
  case Nil
  then show ?case by simp
next
  case (Cons b bs)
  from Cons.prems show ?case
  proof (rule restoreBurgs_Cons)
    fix pb nb cb1 pbs' nbs'
    assume s: "restoreBurg e b cb0 = (pb, nb, cb1)" and r: "restoreBurgs e bs cb1 = (pbs', nbs', cb)"
      and eq: "pbs = pb # pbs'" "nbs = nb # nbs'"
    from Cons.IH [OF r] restoreBurg_length [OF s] eq show ?thesis by simp
  qed
qed

lemma restoreBurgs_keep:
  "restoreBurgs e bs cb0 = (pbs, nbs, cb) \<Longrightarrow> c < length cb0 \<Longrightarrow> cb0 ! c \<noteq> 0 \<Longrightarrow>
   cb ! c = cb0 ! c"
proof (induction bs arbitrary: cb0 pbs nbs)
  case Nil
  then show ?case by simp
next
  case (Cons b bs)
  from Cons.prems(1) show ?case
  proof (rule restoreBurgs_Cons)
    fix pb nb cb1 pbs' nbs'
    assume s: "restoreBurg e b cb0 = (pb, nb, cb1)" and r: "restoreBurgs e bs cb1 = (pbs', nbs', cb)"
    have k1: "cb1 ! c = cb0 ! c" using restoreBurg_keep [OF s Cons.prems(2,3)] .
    have "c < length cb1" using restoreBurg_length [OF s] Cons.prems(2) by simp
    from Cons.IH [OF r this] k1 Cons.prems(3) show ?thesis by simp
  qed
qed

lemma restoreBurgs_nth:
  "restoreBurgs e bs cb0 = (pbs, nbs, cb) \<Longrightarrow> j < length bs \<Longrightarrow>
   \<exists>a a'. length a = length cb0 \<and> restoreBurg e (bs ! j) a = (pbs ! j, nbs ! j, a')"
proof (induction bs arbitrary: cb0 pbs nbs j)
  case Nil
  then show ?case by simp
next
  case (Cons b bs)
  from Cons.prems(1) show ?case
  proof (rule restoreBurgs_Cons)
    fix pb nb cb1 pbs' nbs'
    assume s: "restoreBurg e b cb0 = (pb, nb, cb1)" and r: "restoreBurgs e bs cb1 = (pbs', nbs', cb)"
      and eq: "pbs = pb # pbs'" "nbs = nb # nbs'"
    show ?thesis
    proof (cases j)
      case 0
      with s eq show ?thesis by auto
    next
      case (Suc j')
      with Cons.prems(2) have "j' < length bs" by simp
      from Cons.IH [OF r this] restoreBurg_length [OF s] Suc eq show ?thesis by auto
    qed
  qed
qed

lemma restoreBurgs_origin:
  "restoreBurgs e bs cb0 = (pbs, nbs, cb) \<Longrightarrow> c < length cb \<Longrightarrow>
   cb ! c = cb0 ! c \<or>
   (\<exists>j<length bs. \<not> removed (nbs ! j) \<and> cb ! c = word_of_nat (entity.i (bs ! j)))"
proof (induction bs arbitrary: cb0 pbs nbs)
  case Nil
  then show ?case by simp
next
  case (Cons b bs)
  from Cons.prems(1) show ?case
  proof (rule restoreBurgs_Cons)
    fix pb nb cb1 pbs' nbs'
    assume s: "restoreBurg e b cb0 = (pb, nb, cb1)" and r: "restoreBurgs e bs cb1 = (pbs', nbs', cb)"
      and eq: "pbs = pb # pbs'" "nbs = nb # nbs'"
    have len: "length cb = length cb1" using restoreBurgs_length [OF r] by simp
    from Cons.IH [OF r Cons.prems(2)] consider
      (same) "cb ! c = cb1 ! c"
      | (later) j where "j < length bs" "\<not> removed (nbs' ! j)" "cb ! c = word_of_nat (entity.i (bs ! j))"
      by blast
    then show ?thesis
    proof cases
      case same
      from restoreBurg_origin [OF s, of c] Cons.prems(2) len
      have "cb1 ! c = cb0 ! c \<or> (\<not> removed nb \<and> cb1 ! c = word_of_nat (entity.i b))" by simp
      then show ?thesis
      proof
        assume "cb1 ! c = cb0 ! c"
        with same show ?thesis by simp
      next
        assume "\<not> removed nb \<and> cb1 ! c = word_of_nat (entity.i b)"
        with same eq have "0 < length (b # bs) \<and> \<not> removed (nbs ! 0)
            \<and> cb ! c = word_of_nat (entity.i ((b # bs) ! 0))" by simp
        then show ?thesis by blast
      qed
    next
      case later
      with eq have "Suc j < length (b # bs) \<and> \<not> removed (nbs ! Suc j)
            \<and> cb ! c = word_of_nat (entity.i ((b # bs) ! Suc j))" by simp
      then show ?thesis by blast
    qed
  qed
qed

lemma restoreBurgs_placed:
  assumes lf: "\<forall>px py c. landFind e px py = Some c \<longrightarrow> c < n"
  shows "restoreBurgs e bs cb0 = (pbs, nbs, cb) \<Longrightarrow> length cb0 = n \<Longrightarrow>
   \<forall>b\<in>set bs. entity.i b < 65536 \<Longrightarrow>
   j < length bs \<Longrightarrow> entity.i (nbs ! j) \<noteq> 0 \<Longrightarrow> \<not> removed (nbs ! j) \<Longrightarrow>
   burg.cell (nbs ! j) < n \<and> cb0 ! burg.cell (nbs ! j) = 0
   \<and> unat (cb ! burg.cell (nbs ! j)) = entity.i (nbs ! j)"
proof (induction bs arbitrary: cb0 pbs nbs j)
  case Nil
  then show ?case by simp
next
  case (Cons b bs)
  from Cons.prems(1) show ?case
  proof (rule restoreBurgs_Cons)
    fix pb nb cb1 pbs' nbs'
    assume s: "restoreBurg e b cb0 = (pb, nb, cb1)" and r: "restoreBurgs e bs cb1 = (pbs', nbs', cb)"
      and eq: "pbs = pb # pbs'" "nbs = nb # nbs'"
    have len1: "length cb1 = n" using restoreBurg_length [OF s] Cons.prems(2) by simp
    show ?thesis
    proof (cases j)
      case 0
      with Cons.prems eq have nb: "entity.i nb \<noteq> 0" "\<not> removed nb" by simp_all
      from s show ?thesis
      proof (cases rule: restoreBurg_cases)
        case skip
        with nb show ?thesis by auto
      next
        case drop
        with nb show ?thesis by (simp add: dropped_def)
      next
        case (place c)
        have cn: "c < n" using lf place(4) by blast
        have c0: "cb0 ! c = 0" using place(6) cn Cons.prems(2) by simp
        have bi: "entity.i b < 65536" using Cons.prems(3) by simp
        have "cb1 ! c = word_of_nat (entity.i b)"
          using place(9) cn Cons.prems(2) by (simp add: uint16_store_def)
        moreover have "(word_of_nat (entity.i b) :: uint16) \<noteq> 0"
          using word16_of_index_nonzero [OF place(1) bi] .
        ultimately have "cb ! c = word_of_nat (entity.i b)"
          using restoreBurgs_keep [OF r, of c] cn len1 by simp
        then have "unat (cb ! c) = entity.i b" using word16_of_index [OF bi] by simp
        moreover have "burg.cell nb = c" "entity.i nb = entity.i b"
          using place(7) by (simp_all add: scaled_def)
        ultimately show ?thesis using cn c0 0 eq by simp
      qed
    next
      case (Suc j')
      with Cons.prems eq have p: "j' < length bs" "entity.i (nbs' ! j') \<noteq> 0" "\<not> removed (nbs' ! j')"
        and wf: "\<forall>b\<in>set bs. entity.i b < 65536" by simp_all
      from Cons.IH [OF r len1 wf p] have
        a: "burg.cell (nbs' ! j') < n" and z: "cb1 ! burg.cell (nbs' ! j') = 0"
        and v: "unat (cb ! burg.cell (nbs' ! j')) = entity.i (nbs' ! j')" by simp_all
      have "cb0 ! burg.cell (nbs' ! j') = 0"
      proof (rule ccontr)
        assume "cb0 ! burg.cell (nbs' ! j') \<noteq> 0"
        with restoreBurg_keep [OF s, of "burg.cell (nbs' ! j')"] a Cons.prems(2) z
        show False by simp
      qed
      with a v Suc eq show ?thesis by simp
    qed
  qed
qed

lemma run_abc:
  "restoreBurgs ctx_snap [burg_a, burg_b, burg_c] (newUint16Array 3) =
     ([burg_a\<lparr>population := 20\<rparr>, burg_b\<lparr>population := 10\<rparr>, burg_c\<lparr>population := 14\<rparr>],
      [burg_a\<lparr>population := 20, burg.cell := 2\<rparr>,
       burg_b\<lparr>population := 10, removed := True, lock := False\<rparr>,
       burg_c\<lparr>population := 14, burg.cell := 1\<rparr>], [0, 3, 1])"
  by code_simp

lemma run_shift:
  "restoreBurgs ctx_shift [burg_sentinel, burg_a] (newUint16Array 3) =
     ([burg_sentinel, burg_a\<lparr>population := 20\<rparr>],
      [burg_sentinel, burg_a\<lparr>population := 20, removed := True, lock := False\<rparr>], [0, 0, 0])"
  by code_simp

lemma restoreBurg_marks:
  assumes s: "restoreBurg e b cb0 = (pb, nb, cb1)"
    and lf: "\<forall>px py c. landFind e px py = Some c \<longrightarrow> c < length cb0"
    and bi: "entity.i b < 65536" and nb: "entity.i nb \<noteq> 0" "\<not> removed nb"
  shows "cb1 ! burg.cell nb \<noteq> 0"
  using s
proof (cases rule: restoreBurg_cases)
  case skip
  with nb show ?thesis by auto
next
  case drop
  with nb show ?thesis by (simp add: dropped_def)
next
  case (place c)
  have cn: "c < length cb0" using lf place(4) by blast
  have "cb1 ! c = word_of_nat (entity.i b)" using place(9) cn by (simp add: uint16_store_def)
  moreover have "burg.cell nb = c" using place(7) by (simp add: scaled_def)
  ultimately show ?thesis using word16_of_index_nonzero [OF place(1) bi] by simp
qed

lemma restoreBurgs_distinct_cells:
  assumes lf: "\<forall>px py c. landFind e px py = Some c \<longrightarrow> c < n"
  shows "restoreBurgs e bs cb0 = (pbs, nbs, cb) \<Longrightarrow> length cb0 = n \<Longrightarrow>
   \<forall>b\<in>set bs. entity.i b < 65536 \<Longrightarrow> j1 < j2 \<Longrightarrow> j2 < length bs \<Longrightarrow>
   entity.i (nbs ! j1) \<noteq> 0 \<Longrightarrow> \<not> removed (nbs ! j1) \<Longrightarrow>
   entity.i (nbs ! j2) \<noteq> 0 \<Longrightarrow> \<not> removed (nbs ! j2) \<Longrightarrow>
   burg.cell (nbs ! j1) \<noteq> burg.cell (nbs ! j2)"
proof (induction bs arbitrary: cb0 pbs nbs j1 j2)
  case Nil
  then show ?case by simp
next
  case (Cons b bs)
  from Cons.prems(1) show ?case
  proof (rule restoreBurgs_Cons)
    fix pb nb cb1 pbs' nbs'
    assume s: "restoreBurg e b cb0 = (pb, nb, cb1)" and r: "restoreBurgs e bs cb1 = (pbs', nbs', cb)"
      and eq: "pbs = pb # pbs'" "nbs = nb # nbs'"
    have len1: "length cb1 = n" using restoreBurg_length [OF s] Cons.prems(2) by simp
    have wf: "\<forall>b\<in>set bs. entity.i b < 65536" and bi: "entity.i b < 65536"
      using Cons.prems(3) by simp_all
    from Cons.prems(4) obtain j2' where j2: "j2 = Suc j2'" by (cases j2) auto
    with Cons.prems eq have p2: "j2' < length bs" "entity.i (nbs' ! j2') \<noteq> 0" "\<not> removed (nbs' ! j2')"
      by simp_all
    show ?thesis
    proof (cases j1)
      case 0
      with Cons.prems eq have nb: "entity.i nb \<noteq> 0" "\<not> removed nb" by simp_all
      have lf0: "\<forall>px py c. landFind e px py = Some c \<longrightarrow> c < length cb0"
        using lf Cons.prems(2) by simp
      have "cb1 ! burg.cell nb \<noteq> 0" using restoreBurg_marks [OF s lf0 bi nb] .
      moreover have "cb1 ! burg.cell (nbs' ! j2') = 0"
        using restoreBurgs_placed [OF lf r len1 wf p2] by simp
      ultimately show ?thesis using 0 j2 eq by auto
    next
      case (Suc j1')
      with Cons.prems eq j2 have "j1' < j2'" "entity.i (nbs' ! j1') \<noteq> 0" "\<not> removed (nbs' ! j1')"
        by simp_all
      from Cons.IH [OF r len1 wf this(1) p2(1) this(2,3) p2(2,3)] Suc j2 eq show ?thesis by simp
    qed
  qed
qed

text \<open>
  C3, as stated, fails: the callback returns the slot of index 0 as it is, so a slot
  0 that is not removed keeps its cell, and a burg placed on that cell leaves two
  burgs that are not removed on one cell.
\<close>

theorem restoreBurgs_sentinel_counterexample:
  "\<not> removed (new_burgs (restoreBurgs ctx_snap [burg_sentinel, burg_a] (newUint16Array 3)) ! 0)
   \<and> \<not> removed (new_burgs (restoreBurgs ctx_snap [burg_sentinel, burg_a] (newUint16Array 3)) ! 1)
   \<and> burg.cell (new_burgs (restoreBurgs ctx_snap [burg_sentinel, burg_a] (newUint16Array 3)) ! 0)
     = burg.cell (new_burgs (restoreBurgs ctx_snap [burg_sentinel, burg_a] (newUint16Array 3)) ! 1)"
  by code_simp

text \<open>
  C3, amended: burgs are processed in parent order and a cell that holds a burg is
  never overwritten. When the parent's indices fit the 16-bit cell field and the land
  quadtree returns cells of the new pack, a burg of index other than 0 that is
  returned not removed stays in the burg field of its cell; a later live burg whose
  projected point snaps to that cell is returned with \<open>removed = true\<close> and its lock
  cleared; and no two returned burgs of index other than 0 that are not removed
  share a cell.
\<close>

theorem restoreBurgs_first_writer_wins:
  assumes run: "restoreBurgs e burgs (newUint16Array n) = (pbs, nbs, cb)"
    and lf: "\<forall>px py c. landFind e px py = Some c \<longrightarrow> c < n"
    and wf: "\<forall>b\<in>set burgs. entity.i b < 65536"
    and j: "j1 < j2" "j2 < length burgs"
    and first: "entity.i (nbs ! j1) \<noteq> 0" "\<not> removed (nbs ! j1)"
  shows "unat (cb ! burg.cell (nbs ! j1)) = entity.i (nbs ! j1)
    \<and> (entity.i (burgs ! j2) \<noteq> 0 \<and> \<not> removed (burgs ! j2)
        \<and> landFind e (burg_px e (burgs ! j2)) (burg_py e (burgs ! j2)) = Some (burg.cell (nbs ! j1))
        \<longrightarrow> removed (nbs ! j2) \<and> \<not> lock (nbs ! j2))
    \<and> (entity.i (nbs ! j2) \<noteq> 0 \<and> \<not> removed (nbs ! j2)
        \<longrightarrow> burg.cell (nbs ! j1) \<noteq> burg.cell (nbs ! j2))"
proof -
  have len0: "length (newUint16Array n) = n" by (simp add: newUint16Array_def)
  have j1: "j1 < length burgs" using j by simp
  have keeps: "unat (cb ! burg.cell (nbs ! j1)) = entity.i (nbs ! j1)"
    using restoreBurgs_placed [OF lf run len0 wf j1 first] by simp
  have uniq: "burg.cell (nbs ! j1) \<noteq> burg.cell (nbs ! j2)"
    if "entity.i (nbs ! j2) \<noteq> 0" "\<not> removed (nbs ! j2)"
    using restoreBurgs_distinct_cells [OF lf run len0 wf j first that] .
  have later: "removed (nbs ! j2) \<and> \<not> lock (nbs ! j2)"
    if live: "entity.i (burgs ! j2) \<noteq> 0" "\<not> removed (burgs ! j2)"
      and snap: "landFind e (burg_px e (burgs ! j2)) (burg_py e (burgs ! j2)) = Some (burg.cell (nbs ! j1))"
  proof -
    from restoreBurgs_nth [OF run j(2)] obtain a a' where
      s: "restoreBurg e (burgs ! j2) a = (pbs ! j2, nbs ! j2, a')" by blast
    from s show ?thesis
    proof (cases rule: restoreBurg_cases)
      case skip
      with live show ?thesis by simp
    next
      case drop
      then show ?thesis by (simp add: dropped_def)
    next
      case (place c)
      with snap have "burg.cell (nbs ! j2) = burg.cell (nbs ! j1)" "entity.i (nbs ! j2) \<noteq> 0"
        "\<not> removed (nbs ! j2)" by (simp_all add: scaled_def)
      with uniq show ?thesis by simp
    qed
  qed
  from keeps later uniq show ?thesis by blast
qed

theorem restoreBurgs_first_writer_wins_witness:
  "restoreBurgs ctx_snap [burg_a, burg_b, burg_c] (newUint16Array 3) =
     ([burg_a\<lparr>population := 20\<rparr>, burg_b\<lparr>population := 10\<rparr>, burg_c\<lparr>population := 14\<rparr>],
      [burg_a\<lparr>population := 20, burg.cell := 2\<rparr>,
       burg_b\<lparr>population := 10, removed := True, lock := False\<rparr>,
       burg_c\<lparr>population := 14, burg.cell := 1\<rparr>], [0, 3, 1])
   \<and> unat ([0, 3, 1 :: uint16] ! 2) = 1
   \<and> removed (burg_b\<lparr>population := 10, removed := True, lock := False\<rparr>)
   \<and> burg.cell (burg_a\<lparr>population := 20, burg.cell := 2\<rparr>)
       \<noteq> burg.cell (burg_c\<lparr>population := 14, burg.cell := 1\<rparr>)"
proof -
  have lf: "\<forall>px py c. landFind ctx_snap px py = Some c \<longrightarrow> c < 3"
    by (simp add: ctx_snap_def)
  have wf: "\<forall>b\<in>set [burg_a, burg_b, burg_c]. entity.i b < 65536"
    by (simp add: burg_a_def burg_b_def burg_c_def)
  have first: "entity.i ([burg_a\<lparr>population := 20, burg.cell := 2\<rparr>,
       burg_b\<lparr>population := 10, removed := True, lock := False\<rparr>,
       burg_c\<lparr>population := 14, burg.cell := 1\<rparr>] ! 0) \<noteq> 0"
     "\<not> removed ([burg_a\<lparr>population := 20, burg.cell := 2\<rparr>,
       burg_b\<lparr>population := 10, removed := True, lock := False\<rparr>,
       burg_c\<lparr>population := 14, burg.cell := 1\<rparr>] ! 0)"
    by (simp_all add: burg_a_def)
  have snap: "landFind ctx_snap (burg_px ctx_snap burg_b) (burg_py ctx_snap burg_b) = Some 2"
    by (simp add: ctx_snap_def burg_b_def burg_px_def burg_py_def rn_def)
  from restoreBurgs_first_writer_wins [OF run_abc lf wf _ _ first, of 1]
       restoreBurgs_first_writer_wins [OF run_abc lf wf _ _ first, of 2] snap
  show ?thesis using run_abc
    by (simp add: burg_a_def burg_b_def burg_c_def)
qed

text \<open>
  C4: a parent burg of index other than 0, not removed, whose projected coordinate
  rounded to 2 decimals is outside the map is returned with \<open>removed = true\<close> and
  \<open>lock = false\<close>, its callback leaves \<open>pack.cells.burg\<close> as it is, and (the
  indices of the parent's burgs being distinct and within the 16-bit cell field) no
  new cell's burg field holds its index.
\<close>

theorem restoreBurgs_out_of_bounds:
  assumes run: "restoreBurgs e burgs (newUint16Array n) = (pbs, nbs, cb)"
    and j: "j < length burgs"
    and live: "entity.i (burgs ! j) \<noteq> 0" "\<not> removed (burgs ! j)"
    and out: "\<not> isInMap (graphWidth e) (graphHeight e) (burg_px e (burgs ! j)) (burg_py e (burgs ! j))"
    and dist: "distinct (map entity.i burgs)"
    and wf: "\<forall>b\<in>set burgs. entity.i b < 65536"
  shows "removed (nbs ! j) \<and> \<not> lock (nbs ! j) \<and> entity.i (nbs ! j) = entity.i (burgs ! j)
    \<and> (\<forall>a. snd (snd (restoreBurg e (burgs ! j) a)) = a)
    \<and> (\<forall>c<length cb. unat (cb ! c) \<noteq> entity.i (burgs ! j))"
proof -
  have out': "\<not> inMap e (burg_px e (burgs ! j)) (burg_py e (burgs ! j))"
    using out by (simp add: inMap_def)
  have step: "restoreBurg e (burgs ! j) a = (scaled e (burgs ! j), dropped e (burgs ! j), a)" for a
    using restoreBurg_out [OF live out'] .
  from restoreBurgs_nth [OF run j] obtain a a' where
    "restoreBurg e (burgs ! j) a = (pbs ! j, nbs ! j, a')" by blast
  with step [of a] have nb: "nbs ! j = dropped e (burgs ! j)" by simp
  then have rem: "removed (nbs ! j)" "\<not> lock (nbs ! j)" "entity.i (nbs ! j) = entity.i (burgs ! j)"
    by (simp_all add: dropped_def scaled_def)
  have nowrite: "\<forall>a. snd (snd (restoreBurg e (burgs ! j) a)) = a"
    using step by simp
  have "unat (cb ! c) \<noteq> entity.i (burgs ! j)" if c: "c < length cb" for c
  proof
    assume eq: "unat (cb ! c) = entity.i (burgs ! j)"
    have "length cb = n" using restoreBurgs_length [OF run] by (simp add: newUint16Array_def)
    with c have "newUint16Array n ! c = 0" by (simp add: newUint16Array_def)
    with restoreBurgs_origin [OF run c] consider (zero) "cb ! c = 0"
      | (set) k where "k < length burgs" "\<not> removed (nbs ! k)" "cb ! c = word_of_nat (entity.i (burgs ! k))"
      by auto
    then show False
    proof cases
      case zero
      with eq live show False by simp
    next
      case set
      have "entity.i (burgs ! k) < 65536" using wf set(1) by simp
      with set(3) have "unat (cb ! c) = entity.i (burgs ! k)" by (simp add: word16_of_index)
      with eq have "map entity.i burgs ! k = map entity.i burgs ! j" using set(1) j by simp
      moreover have "k < length (map entity.i burgs)" "j < length (map entity.i burgs)"
        using set(1) j by simp_all
      ultimately have "k = j" using dist nth_eq_iff_index_eq by blast
      with set(2) rem show False by simp
    qed
  qed
  with rem nowrite show ?thesis by blast
qed

theorem restoreBurgs_out_of_bounds_witness:
  "restoreBurgs ctx_shift [burg_sentinel, burg_a] (newUint16Array 3) =
     ([burg_sentinel, burg_a\<lparr>population := 20\<rparr>],
      [burg_sentinel, burg_a\<lparr>population := 20, removed := True, lock := False\<rparr>], [0, 0, 0])
   \<and> burg_px ctx_shift burg_a = 25
   \<and> \<not> isInMap (graphWidth ctx_shift) (graphHeight ctx_shift) (burg_px ctx_shift burg_a)
          (burg_py ctx_shift burg_a)
   \<and> distinct (map entity.i [burg_sentinel, burg_a])
   \<and> removed ([burg_sentinel, burg_a\<lparr>population := 20, removed := True, lock := False\<rparr>] ! 1)
   \<and> unat ([0, 0, 0 :: uint16] ! 0) \<noteq> 1 \<and> unat ([0, 0, 0 :: uint16] ! 1) \<noteq> 1
   \<and> unat ([0, 0, 0 :: uint16] ! 2) \<noteq> 1"
proof -
  have px: "burg_px ctx_shift burg_a = 25" "burg_py ctx_shift burg_a = 10"
    by (simp_all add: ctx_shift_def ctx_snap_def burg_a_def burg_px_def burg_py_def rn_def)
  have out: "\<not> isInMap (graphWidth ctx_shift) (graphHeight ctx_shift)
      (burg_px ctx_shift ([burg_sentinel, burg_a] ! 1)) (burg_py ctx_shift ([burg_sentinel, burg_a] ! 1))"
    by (simp add: px) (simp add: isInMap_def ctx_shift_def ctx_snap_def)
  have live: "entity.i ([burg_sentinel, burg_a] ! 1) \<noteq> 0" "\<not> removed ([burg_sentinel, burg_a] ! 1)"
    by (simp_all add: burg_a_def)
  have dist: "distinct (map entity.i [burg_sentinel, burg_a])"
    by (simp add: burg_a_def burg_sentinel_def)
  have wf: "\<forall>b\<in>set [burg_sentinel, burg_a]. entity.i b < 65536"
    by (simp add: burg_a_def burg_sentinel_def)
  from restoreBurgs_out_of_bounds [OF run_shift _ live out dist wf]
  have "removed ([burg_sentinel, burg_a\<lparr>population := 20, removed := True, lock := False\<rparr>] ! 1)
    \<and> (\<forall>c<length [0, 0, 0 :: uint16]. unat ([0, 0, 0 :: uint16] ! c) \<noteq> 1)"
    by (simp add: burg_a_def)
  with run_shift px(1) out dist show ?thesis by (simp add: burg_a_def)
qed

text \<open>
  C1 fails on the code: \<open>restoreBurgs\<close> multiplies the population on the parent's
  burg object before copying it, and \<open>restoreMarkers\<close> writes on the marker
  objects that the parent's array holds. Here the parent's burg goes from 10 to 20
  and the parent's marker gets a new cell.
\<close>

theorem resample_mutates_parent:
  "map population [burg_sentinel, burg_a] = [0, 10]
   \<and> map population (parent_burgs (restoreBurgs ctx_snap [burg_sentinel, burg_a] (newUint16Array 3)))
       = [0, 20]
   \<and> parent_markers (restoreMarkers ctx_snap [marker_m])
       = [marker_m\<lparr>marker.cell := 2\<rparr>]
   \<and> parent_markers (restoreMarkers ctx_snap [marker_m]) \<noteq> [marker_m]"
  by code_simp

text \<open>
  C7 fails on the code in its last part: after \<open>Markers.deleteMarker\<close> the callback
  does not return, so the deleted marker, gone from \<open>pack.markers\<close>, still has its
  coordinates and cell overwritten.
\<close>

theorem restoreMarkers_updates_deleted_marker:
  "new_markers (restoreMarkers ctx_shift [marker_m]) = []
   \<and> parent_markers (restoreMarkers ctx_shift [marker_m])
       = [marker_m\<lparr>marker.x := 25, marker.y := 10, marker.cell := 2\<rparr>]
   \<and> objs (restoreMarkers ctx_shift [marker_m]) ! 0 \<noteq> marker_m"
  by code_simp

subsection \<open>River depression\<close>

text \<open>
  What \<open>depressRivers\<close> does on a grid that has \<open>cells.points\<close>: the point at
  position \<open>k\<close> of that array is lowered by 1 when its nearest parent cell carries a
  river and its elevation exceeds 20, and is otherwise left as it is; land stays land.
\<close>

lemma depress_cell_shape:
  assumes "depress_cell inverse_fn qfind rs pts k hs = Inr hs'"
  shows "hs' = hs \<or> (k < length hs \<and> 20 < hs ! k \<and> hs' = hs[k := hs ! k - 1])"
  using assms
  by (auto simp: depress_cell_def Let_def case_prod_beta split: option.splits if_splits)

lemma forEach_depress_frame:
  "forEach (depress_cell inverse_fn qfind rs pts) ks hs = Inr hs' \<Longrightarrow>
   length hs' = length hs \<and> (\<forall>j. j \<notin> set ks \<longrightarrow> hs' ! j = hs ! j)"
proof (induction ks arbitrary: hs)
  case Nil
  then show ?case by simp
next
  case (Cons k ks)
  then obtain h1 where s: "depress_cell inverse_fn qfind rs pts k hs = Inr h1"
    and r: "forEach (depress_cell inverse_fn qfind rs pts) ks h1 = Inr hs'"
    by (auto split: sum.splits)
  from depress_cell_shape [OF s]
  have "length h1 = length hs \<and> (\<forall>j. j \<noteq> k \<longrightarrow> h1 ! j = hs ! j)" by auto
  with Cons.IH [OF r] show ?case by simp
qed

lemma depressRivers_with_cells_points:
  assumes pts: "cells_points g = Some pts"
    and run: "depressRivers inverse_fn qfind rs g = Inr g'"
    and k: "k < length pts" "k < length (cells_h g)"
  shows "\<exists>parentPackCell.
      qfind (fst (inverse_fn (fst (pts ! k)) (snd (pts ! k))))
            (snd (inverse_fn (fst (pts ! k)) (snd (pts ! k)))) = Some parentPackCell \<and>
      cells_h g' ! k =
        (if parentPackCell < length rs \<and> rs ! parentPackCell \<noteq> 0 \<and> 20 < cells_h g ! k
         then cells_h g ! k - 1 else cells_h g ! k) \<and>
      (20 \<le> cells_h g ! k \<longrightarrow> 20 \<le> cells_h g' ! k)"
proof -
  let ?f = "depress_cell inverse_fn qfind rs pts"
  from run pts have all: "forEach ?f [0..<length pts] (cells_h g) = Inr (cells_h g')"
    by (auto simp: depressRivers_def split: sum.splits)
  have upt: "[0..<length pts] = [0..<k] @ k # [Suc k..<length pts]"
    using k(1) by (metis le0 upt_add_eq_append upt_conv_Cons le_add_diff_inverse less_imp_le_nat)
  from all obtain hk h1 where a: "forEach ?f [0..<k] (cells_h g) = Inr hk"
    and s: "?f k hk = Inr h1" and d: "forEach ?f [Suc k..<length pts] h1 = Inr (cells_h g')"
    unfolding upt forEach_append by (auto split: sum.splits)
  have hk: "hk ! k = cells_h g ! k" "length hk = length (cells_h g)"
    using forEach_depress_frame [OF a] by simp_all
  have fin: "cells_h g' ! k = h1 ! k" using forEach_depress_frame [OF d] by simp
  from s obtain c where
    q: "qfind (fst (inverse_fn (fst (pts ! k)) (snd (pts ! k))))
              (snd (inverse_fn (fst (pts ! k)) (snd (pts ! k)))) = Some c"
    by (auto simp: depress_cell_def Let_def case_prod_beta split: option.splits)
  with s hk k(2) have "h1 ! k =
        (if c < length rs \<and> rs ! c \<noteq> 0 \<and> 20 < cells_h g ! k
         then cells_h g ! k - 1 else cells_h g ! k)"
    by (auto simp: depress_cell_def Let_def case_prod_beta)
  with fin have v: "cells_h g' ! k =
        (if c < length rs \<and> rs ! c \<noteq> 0 \<and> 20 < cells_h g ! k
         then cells_h g ! k - 1 else cells_h g ! k)" by simp
  have "20 \<le> w - 1" if "20 < w" for w :: uint8
  proof -
    from that have "w \<noteq> 0" by auto
    then have "unat (w - 1) = unat w - 1" by (rule unat_minus_one)
    moreover from that have "20 < unat w" by (simp add: word_less_nat_alt)
    ultimately show ?thesis by (simp add: word_le_nat_alt)
  qed
  with v have "20 \<le> cells_h g ! k \<longrightarrow> 20 \<le> cells_h g' ! k" by simp
  with q v show ?thesis by blast
qed

text \<open>
  C6 fails on the code: \<open>depressRivers\<close> iterates \<open>grid.cells.points\<close>, not the
  lattice \<open>grid.points\<close> that \<open>resamplePrimaryGridData\<close> iterates. On a grid
  with a lattice point of elevation 30 over a parent river cell and no
  \<open>cells.points\<close>, the function throws and nothing is lowered.
\<close>

theorem depressRivers_missing_points:
  "depressRivers (\<lambda>px py. (px, py)) (\<lambda>px py. Some 0) [1] grid_river = Inl TypeError
   \<and> points grid_river = [(0, 0)] \<and> cells_h grid_river = [30]"
  by code_simp

subsection \<open>Cultures, states, religions and provinces\<close>

lemma has_on_some_cell: "has a v = on_some_cell a v"
proof -
  have "v \<in> set (map unat a) \<longleftrightarrow> (\<exists>c<length (map unat a). map unat a ! c = v)"
    by (simp only: in_set_conv_nth)
  also have "\<dots> \<longleftrightarrow> (\<exists>c<length a. unat (a ! c) = v)"
    by (metis length_map nth_map)
  finally show ?thesis by (simp only: has_def on_some_cell_def)
qed

lemma mapE_nth:
  "mapE f as = Inr bs \<Longrightarrow> length bs = length as \<and> (\<forall>j<length as. f (as ! j) = Inr (bs ! j))"
proof (induction as arbitrary: bs)
  case Nil
  then show ?case by simp
next
  case (Cons a as)
  from Cons.prems obtain b bs' where b: "f a = Inr b" and r: "mapE f as = Inr bs'" and eq: "bs = b # bs'"
    by (auto split: sum.splits)
  from Cons.IH [OF r] b eq show ?case by (auto simp: nth_Cons split: nat.splits)
qed

lemma entity_presence_nth:
  assumes "length news = length parents"
    and "\<And>j. j < length parents \<Longrightarrow> entity_kept overlay (parents ! j) (news ! j)"
  shows "entity_presence overlay parents news"
  using assms unfolding entity_presence_def entity_kept_def by blast

lemma restoreCentered_kept:
  assumes "restoreCentered e overlay poles r = Inr r'"
  shows "entity_kept overlay r r'"
proof (cases "entity.i r = 0 \<or> removed r")
  case True
  with assms have "r' = r" by (auto simp: restoreCentered_def)
  with True show ?thesis by (auto simp: entity_kept_def)
next
  case live: False
  show ?thesis
  proof (cases "has overlay (entity.i r)")
    case False
    with live assms have "r' = r\<lparr>removed := True, lock := False\<rparr>"
      by (auto simp: restoreCentered_def)
    with live show ?thesis by (simp add: entity_kept_def)
  next
    case True
    with live assms have "\<exists>c. r' = r\<lparr>region.center := c\<rparr>"
      by (auto simp: restoreCentered_def Let_def case_prod_beta split: if_splits option.splits)
    then obtain c where "r' = r\<lparr>region.center := c\<rparr>" ..
    with True live show ?thesis by (simp add: entity_kept_def has_on_some_cell)
  qed
qed

lemma restoreState_kept:
  assumes "restoreState e overlay s = Inr s'"
  shows "entity_kept overlay s s'"
proof (cases "entity.i s = 0 \<or> removed s")
  case True
  with assms have "s' = s" by (auto simp: restoreState_def)
  with True show ?thesis by (auto simp: entity_kept_def)
next
  case live: False
  show ?thesis
  proof (cases "has overlay (entity.i s)")
    case False
    with live assms have "s' = s\<lparr>removed := True, lock := False\<rparr>"
      by (auto simp: restoreState_def)
    with live show ?thesis by (simp add: entity_kept_def)
  next
    case True
    with live assms have "\<exists>ns rs. s' = s\<lparr>neighbors := ns, military := rs\<rparr>"
      by (auto simp: restoreState_def split: sum.splits)
    then obtain ns rs where "s' = s\<lparr>neighbors := ns, military := rs\<rparr>" by blast
    with True live show ?thesis by (simp add: entity_kept_def has_on_some_cell)
  qed
qed

lemma recenterState_same:
  assumes "recenterState e burgs s = Inr s'"
  shows "entity.i s' = entity.i s \<and> removed s' = removed s \<and> lock s' = lock s
         \<and> state.pole s' = state.pole s \<and> capital s' = capital s \<and> name s' = name s"
proof -
  from assms have "s' = s \<or> (\<exists>c. s' = s\<lparr>state.center := c\<rparr>)"
    by (auto simp: recenterState_def split: if_splits option.splits)
  then show ?thesis by auto
qed

lemma recenterProvince_same:
  assumes "recenterProvince e burgs p = Inr p'"
  shows "entity.i p' = entity.i p \<and> removed p' = removed p \<and> lock p' = lock p
         \<and> name p' = name p"
proof -
  from assms have "p' = p \<or> (\<exists>c. p' = p\<lparr>province.center := c\<rparr>)"
    by (auto simp: recenterProvince_def split: if_splits option.splits)
  then show ?thesis by auto
qed

lemma restoreProvince_kept: "entity_kept overlay p (restoreProvince overlay p)"
  by (simp add: restoreProvince_def entity_kept_def has_on_some_cell)

lemma run_cultures:
  "restoreCultures ctx_snap [1, 0, 1] poles_ex [culture_wild, culture_one, culture_two] =
     Inr [culture_wild, culture_one\<lparr>region.center := 2\<rparr>,
          culture_two\<lparr>removed := True, lock := False\<rparr>]"
  by code_simp

lemma run_religions:
  "restoreReligions ctx_snap [1, 0, 1] poles_ex [culture_wild, culture_one, culture_two] =
     Inr [culture_wild, culture_one\<lparr>region.center := 2\<rparr>,
          culture_two\<lparr>removed := True, lock := False\<rparr>]"
  by code_simp

lemma run_states:
  "restoreStates ctx_snap [1, 3, 1] poles_ex pack_burgs [state_one, state_two, state_three] =
     Inr [state_one\<lparr>state.center := 2, neighbors := [3]\<rparr>,
          state_two\<lparr>removed := True, lock := False\<rparr>,
          state_three\<lparr>state.center := 1, state.pole := Some (1, 1),
            military := [\<lparr>regiment.cell = 1, bx = 1, by' = 1, regiment.x = 2, regiment.y = 1\<rparr>]\<rparr>]"
  by code_simp

lemma run_provinces:
  "restoreProvinces ctx_snap [1, 0, 1] poles_ex pack_burgs [province_one, province_two] =
     Inr [province_one\<lparr>province.center := 2\<rparr>, province_two\<lparr>removed := True, lock := False\<rparr>]"
  by code_simp

lemma run_wild:
  "restoreCultures ctx_snap [1, 1] poles_ex [culture_wild, culture_one] =
     Inr [culture_wild, culture_one\<lparr>region.center := 2\<rparr>]"
  by code_simp

lemma entity_kept_trans:
  "entity_kept overlay r r' \<Longrightarrow> entity.i r'' = entity.i r' \<Longrightarrow> removed r'' = removed r' \<Longrightarrow>
   lock r'' = lock r' \<Longrightarrow> name r'' = name r' \<Longrightarrow> entity_kept overlay r r''"
  unfolding entity_kept_def by metis

lemma restoreCultures_presence:
  assumes "restoreCultures e overlay poles rs = Inr rs'"
  shows "entity_presence overlay rs rs'"
proof -
  from assms have m: "mapE (restoreCentered e overlay poles) rs = Inr rs'"
    by (simp add: restoreCultures_def)
  from mapE_nth [OF m] restoreCentered_kept show ?thesis
    by (intro entity_presence_nth) auto
qed

lemma restoreReligions_presence:
  assumes "restoreReligions e overlay poles rs = Inr rs'"
  shows "entity_presence overlay rs rs'"
proof -
  from assms have m: "mapE (restoreCentered e overlay poles) rs = Inr rs'"
    by (simp add: restoreReligions_def)
  from mapE_nth [OF m] restoreCentered_kept show ?thesis
    by (intro entity_presence_nth) auto
qed

lemma restoreStates_split:
  assumes "restoreStates e overlay poles burgs ss = Inr ss'"
  obtains ms where "mapE (restoreState e overlay) ss = Inr ms"
    "mapE (recenterState e burgs) (getPoles poles ms) = Inr ss'"
  using assms by (auto simp: restoreStates_def split: sum.splits)

lemma restoreStates_presence:
  assumes run: "restoreStates e overlay poles burgs ss = Inr ss'"
  shows "entity_presence overlay ss ss'"
proof -
  from run obtain ms where a: "mapE (restoreState e overlay) ss = Inr ms"
    and b: "mapE (recenterState e burgs) (getPoles poles ms) = Inr ss'"
    by (rule restoreStates_split)
  note A = mapE_nth [OF a] and B = mapE_nth [OF b]
  have len: "length ms = length ss" "length ss' = length ss"
    using A B by (simp_all add: getPoles_def)
  have "entity_kept overlay (ss ! j) (ss' ! j)" if j: "j < length ss" for j
  proof -
    have k1: "entity_kept overlay (ss ! j) (ms ! j)"
      using A j restoreState_kept by blast
    have "recenterState e burgs ((ms ! j)\<lparr>state.pole := poles (entity.i (ms ! j))\<rparr>) = Inr (ss' ! j)"
      using B j len by (simp add: getPoles_def)
    from recenterState_same [OF this] k1 show ?thesis
      by (intro entity_kept_trans [OF k1]) simp_all
  qed
  with len show ?thesis by (intro entity_presence_nth) simp_all
qed

lemma restoreProvinces_presence:
  assumes run: "restoreProvinces e overlay poles burgs ps = Inr ps'"
  shows "entity_presence overlay ps ps'"
proof -
  from run have b: "mapE (recenterProvince e burgs)
       (getProvincePoles poles (map (restoreProvince overlay) ps)) = Inr ps'"
    by (simp add: restoreProvinces_def)
  note B = mapE_nth [OF b]
  have len: "length ps' = length ps" using B by (simp add: getProvincePoles_def)
  have "entity_kept overlay (ps ! j) (ps' ! j)" if j: "j < length ps" for j
  proof -
    let ?m = "restoreProvince overlay (ps ! j)"
    have k1: "entity_kept overlay (ps ! j) ?m" by (rule restoreProvince_kept)
    have "recenterProvince e burgs (?m\<lparr>province.pole := poles (entity.i ?m)\<rparr>) = Inr (ps' ! j)"
      using B j by (simp add: getProvincePoles_def)
    from recenterProvince_same [OF this] show ?thesis
      by (intro entity_kept_trans [OF k1]) simp_all
  qed
  with len show ?thesis by (intro entity_presence_nth) simp_all
qed

text \<open>
  C2, as stated, fails for the entity of index 0, which every restore function returns
  as it is: with no new cell of culture 0, the culture of index 0 is returned not
  removed although its index is on no cell.
\<close>

theorem restoreCultures_index0_counterexample:
  "restoreCultures ctx_snap [1, 1] poles_ex [culture_wild, culture_one] =
     Inr [culture_wild, culture_one\<lparr>region.center := 2\<rparr>]
   \<and> \<not> removed culture_wild \<and> \<not> on_some_cell [1, 1] (entity.i culture_wild)"
proof -
  have "\<not> has [1, 1] (entity.i culture_wild)" by code_simp
  then have a: "\<not> on_some_cell [1, 1] (entity.i culture_wild)" by (simp add: has_on_some_cell)
  have b: "\<not> removed culture_wild" by (simp add: culture_wild_def)
  from run_wild a b show ?thesis by blast
qed

text \<open>
  C2, amended: for each of cultures, states, religions and provinces, every entity of
  index other than 0 that is returned not removed has at least one new pack cell
  whose overlay field equals its index, and every parent entity of index other than
  0 that was not removed and whose index is on no new cell is returned with
  \<open>removed = true\<close> and its lock cleared. The entity of index 0 is exempt from the
  filter: it is returned with its index, name, removed flag and lock flag as they
  were, as is every entity that was removed already.
\<close>

theorem restore_entity_presence:
  "(restoreCultures e cells_culture culturePoles cultures = Inr cultures'
      \<longrightarrow> entity_presence cells_culture cultures cultures')
   \<and> (restoreStates e cells_state statePoles burgs states = Inr states'
      \<longrightarrow> entity_presence cells_state states states')
   \<and> (restoreReligions e cells_religion religionPoles religions = Inr religions'
      \<longrightarrow> entity_presence cells_religion religions religions')
   \<and> (restoreProvinces e cells_province provincePoles burgs provinces = Inr provinces'
      \<longrightarrow> entity_presence cells_province provinces provinces')"
  by (intro conjI impI)
    (erule restoreCultures_presence restoreStates_presence restoreReligions_presence
       restoreProvinces_presence)+

theorem restore_entity_presence_witness:
  "restoreCultures ctx_snap [1, 0, 1] poles_ex [culture_wild, culture_one, culture_two] =
     Inr [culture_wild, culture_one\<lparr>region.center := 2\<rparr>,
          culture_two\<lparr>removed := True, lock := False\<rparr>]
   \<and> restoreStates ctx_snap [1, 3, 1] poles_ex pack_burgs [state_one, state_two, state_three] =
     Inr [state_one\<lparr>state.center := 2, neighbors := [3]\<rparr>,
          state_two\<lparr>removed := True, lock := False\<rparr>,
          state_three\<lparr>state.center := 1, state.pole := Some (1, 1),
            military := [\<lparr>regiment.cell = 1, bx = 1, by' = 1, regiment.x = 2, regiment.y = 1\<rparr>]\<rparr>]
   \<and> restoreReligions ctx_snap [1, 0, 1] poles_ex [culture_wild, culture_one, culture_two] =
     Inr [culture_wild, culture_one\<lparr>region.center := 2\<rparr>,
          culture_two\<lparr>removed := True, lock := False\<rparr>]
   \<and> restoreProvinces ctx_snap [1, 0, 1] poles_ex pack_burgs [province_one, province_two] =
     Inr [province_one\<lparr>province.center := 2\<rparr>, province_two\<lparr>removed := True, lock := False\<rparr>]
   \<and> on_some_cell [1, 0, 1] (entity.i (culture_one\<lparr>region.center := 2\<rparr>))
   \<and> on_some_cell [1, 3, 1] (entity.i (state_one\<lparr>state.center := 2, neighbors := [3]\<rparr>))
   \<and> on_some_cell [1, 0, 1] (entity.i (province_one\<lparr>province.center := 2\<rparr>))"
proof -
  from restore_entity_presence [of ctx_snap "[1, 0, 1]" poles_ex
      "[culture_wild, culture_one, culture_two]" _ "[1, 3, 1]" poles_ex pack_burgs
      "[state_one, state_two, state_three]" _ "[1, 0, 1]" poles_ex
      "[culture_wild, culture_one, culture_two]" _ "[1, 0, 1]" poles_ex
      "[province_one, province_two]"]
    run_cultures run_states run_religions run_provinces
  have c: "entity_presence [1, 0, 1] [culture_wild, culture_one, culture_two]
         [culture_wild, culture_one\<lparr>region.center := 2\<rparr>,
          culture_two\<lparr>removed := True, lock := False\<rparr>]"
    and s: "entity_presence [1, 3, 1] [state_one, state_two, state_three]
         [state_one\<lparr>state.center := 2, neighbors := [3]\<rparr>,
          state_two\<lparr>removed := True, lock := False\<rparr>,
          state_three\<lparr>state.center := 1, state.pole := Some (1, 1),
            military := [\<lparr>regiment.cell = 1, bx = 1, by' = 1, regiment.x = 2, regiment.y = 1\<rparr>]\<rparr>]"
    and p: "entity_presence [1, 0, 1] [province_one, province_two]
         [province_one\<lparr>province.center := 2\<rparr>, province_two\<lparr>removed := True, lock := False\<rparr>]"
    by blast+
  have "on_some_cell [1, 0, 1] (entity.i (culture_one\<lparr>region.center := 2\<rparr>))"
    using c unfolding entity_presence_def
    by (elim conjE allE [of _ 1]) (simp add: culture_one_def)
  moreover have "on_some_cell [1, 3, 1] (entity.i (state_one\<lparr>state.center := 2, neighbors := [3]\<rparr>))"
    using s unfolding entity_presence_def
    by (elim conjE allE [of _ 0]) (simp add: state_one_def)
  moreover have "on_some_cell [1, 0, 1] (entity.i (province_one\<lparr>province.center := 2\<rparr>))"
    using p unfolding entity_presence_def
    by (elim conjE allE [of _ 0]) (simp add: province_one_def)
  ultimately show ?thesis using run_cultures run_states run_religions run_provinces by simp
qed

lemma recenterState_center:
  assumes r: "recenterState e burgs s = Inr s'" and live: "entity.i s' \<noteq> 0" "\<not> removed s'"
  shows "capital s' < length burgs \<and>
     (if \<not> removed (burgs ! capital s') then state.center s' = burg.cell (burgs ! capital s')
      else \<exists>qx qy. state.pole s' = Some (qx, qy) \<and> state.center s' = findCell e qx qy)"
proof -
  from recenterState_same [OF r] live have l: "entity.i s \<noteq> 0" "\<not> removed s" by simp_all
  with r have cap: "capital s < length burgs"
    by (auto simp: recenterState_def split: if_splits)
  show ?thesis
  proof (cases "removed (burgs ! capital s)")
    case False
    with r l cap have "s' = s\<lparr>state.center := burg.cell (burgs ! capital s)\<rparr>"
      by (auto simp: recenterState_def)
    with False cap show ?thesis by simp
  next
    case True
    with r l cap obtain qx qy where "state.pole s = Some (qx, qy)"
      "s' = s\<lparr>state.center := findCell e qx qy\<rparr>"
      by (auto simp: recenterState_def split: option.splits)
    with True cap show ?thesis by simp
  qed
qed

text \<open>
  C8: after \<open>restoreStates\<close>, every state of index other than 0 that is not removed
  has its capital among the burgs; its center is the capital's cell in the new pack
  when the capital is not removed, and otherwise the cell that \<open>findCell\<close> gives for
  the state's pole of inaccessibility.
\<close>

theorem restoreStates_center:
  assumes run: "restoreStates e cells_state poles burgs states = Inr states'"
    and j: "j < length states'"
    and live: "entity.i (states' ! j) \<noteq> 0" "\<not> removed (states' ! j)"
  shows "capital (states' ! j) < length burgs \<and>
     state.pole (states' ! j) = poles (entity.i (states' ! j)) \<and>
     (if \<not> removed (burgs ! capital (states' ! j))
      then state.center (states' ! j) = burg.cell (burgs ! capital (states' ! j))
      else \<exists>qx qy. state.pole (states' ! j) = Some (qx, qy)
             \<and> state.center (states' ! j) = findCell e qx qy)"
proof -
  from run obtain ms where b: "mapE (recenterState e burgs) (getPoles poles ms) = Inr states'"
    by (rule restoreStates_split)
  note B = mapE_nth [OF b]
  have jm: "j < length ms" using B j by (simp add: getPoles_def)
  have r: "recenterState e burgs ((ms ! j)\<lparr>state.pole := poles (entity.i (ms ! j))\<rparr>)
            = Inr (states' ! j)"
    using B jm by (simp add: getPoles_def)
  from recenterState_same [OF r]
  have "state.pole (states' ! j) = poles (entity.i (states' ! j))" by simp
  with recenterState_center [OF r live] show ?thesis by (auto split: if_splits)
qed

theorem restoreStates_center_witness:
  "restoreStates ctx_snap [1, 3, 1] poles_ex pack_burgs [state_one, state_two, state_three] =
     Inr [state_one\<lparr>state.center := 2, neighbors := [3]\<rparr>,
          state_two\<lparr>removed := True, lock := False\<rparr>,
          state_three\<lparr>state.center := 1, state.pole := Some (1, 1),
            military := [\<lparr>regiment.cell = 1, bx = 1, by' = 1, regiment.x = 2, regiment.y = 1\<rparr>]\<rparr>]
   \<and> state.center (state_one\<lparr>state.center := 2, neighbors := [3]\<rparr>)
       = burg.cell (pack_burgs ! 1)
   \<and> removed (pack_burgs ! 2)
   \<and> state.center (state_three\<lparr>state.center := 1, state.pole := Some (1, 1),
            military := [\<lparr>regiment.cell = 1, bx = 1, by' = 1, regiment.x = 2, regiment.y = 1\<rparr>]\<rparr>)
       = findCell ctx_snap 1 1"
proof -
  have l0: "entity.i ([state_one\<lparr>state.center := 2, neighbors := [3]\<rparr>,
          state_two\<lparr>removed := True, lock := False\<rparr>,
          state_three\<lparr>state.center := 1, state.pole := Some (1, 1),
            military := [\<lparr>regiment.cell = 1, bx = 1, by' = 1, regiment.x = 2, regiment.y = 1\<rparr>]\<rparr>] ! 0) \<noteq> 0"
     "\<not> removed ([state_one\<lparr>state.center := 2, neighbors := [3]\<rparr>,
          state_two\<lparr>removed := True, lock := False\<rparr>,
          state_three\<lparr>state.center := 1, state.pole := Some (1, 1),
            military := [\<lparr>regiment.cell = 1, bx = 1, by' = 1, regiment.x = 2, regiment.y = 1\<rparr>]\<rparr>] ! 0)"
    by (simp_all add: state_one_def)
  have rem: "removed (pack_burgs ! 2)" "\<not> removed (pack_burgs ! 1)"
    by (simp_all add: pack_burgs_def burg_a_def burg_b_def)
  from restoreStates_center [OF run_states _ l0] rem
  have "state.center (state_one\<lparr>state.center := 2, neighbors := [3]\<rparr>) = burg.cell (pack_burgs ! 1)"
    by (simp add: state_one_def)
  moreover have "state.center (state_three\<lparr>state.center := 1, state.pole := Some (1, 1),
            military := [\<lparr>regiment.cell = 1, bx = 1, by' = 1, regiment.x = 2, regiment.y = 1\<rparr>]\<rparr>)
       = findCell ctx_snap 1 1"
    by (simp add: ctx_snap_def)
  ultimately show ?thesis using run_states rem by simp
qed

subsection \<open>Zones\<close>















end
